theory Spec2Isabelle
  imports Main "HOL-Library.Sublist" "HOL-Library.AList"
begin

section \<open>The hidden-file predicate of \<open>lambda_packager/package.py\<close>\<close>

text \<open>
  Python strings are modelled as \<^typ>\<open>string\<close>. The two string tests the predicate uses are
  \<open>str.startswith\<close> and the substring test \<open>in\<close>.
\<close>

definition startswith :: "string \<Rightarrow> string \<Rightarrow> bool" where
  "startswith s p = prefix p s"

fun contains :: "string \<Rightarrow> string \<Rightarrow> bool" where
  "contains [] p = (p = [])"
| "contains (c # cs) p = (prefix p (c # cs) \<or> contains cs p)"

text \<open>
  \<^verbatim>\<open>
  @staticmethod
  def _is_hidden_file(name):
      return name.startswith(".") or "/." in name
  \<close>
\<close>

definition is_hidden_file :: "string \<Rightarrow> bool" where
  "is_hidden_file name = (startswith name ''.'' \<or> contains name ''/.'')"

text \<open>
  The specification's wording of the predicate: the string is cut at every \<open>/\<close> into its
  segments, and the path is hidden when one of the segments begins with a dot.
\<close>

fun segments :: "string \<Rightarrow> string list" where
  "segments [] = [[]]"
| "segments (c # cs) =
     (if c = CHR ''/'' then [] # segments cs
      else (case segments cs of [] \<Rightarrow> [[c]] | s # ss \<Rightarrow> (c # s) # ss))"

fun some_segment_dotted :: "string list \<Rightarrow> bool" where
  "some_segment_dotted [] = False"
| "some_segment_dotted (s # ss) = (startswith s ''.'' \<or> some_segment_dotted ss)"

definition spec_hidden :: "string \<Rightarrow> bool" where
  "spec_hidden name = some_segment_dotted (segments name)"

text \<open>
  \<^verbatim>\<open>
  def _is_hidden_file_list(self, src, files):
      if LambdaAutoPackage._is_hidden_file(src):
          return files
      files_to_skip = list(filter(LambdaAutoPackage._is_hidden_file, files))
      return files_to_skip
  \<close>
  The callback also writes warnings to the logger; they are not part of the model.
\<close>

definition is_hidden_file_list :: "string \<Rightarrow> string list \<Rightarrow> string list" where
  "is_hidden_file_list src files =
     (if is_hidden_file src then files else filter is_hidden_file files)"

section \<open>Paths\<close>

text \<open>
  A \<open>pathlib\<close> path is its list of parts together with the flag of being absolute. The
  model covers POSIX paths without \<open>..\<close> parts. \<open>str_path\<close> is \<open>str(path)\<close>,
  \<open>joinpath\<close> appends a relative path, \<open>parse_path\<close> is \<open>Path(string)\<close> (empty and
  single-dot parts are dropped) and \<open>parent\<close> is \<open>path.parent\<close>.
\<close>

type_synonym path = "string list"

record ppath =
  absolute :: bool
  parts :: path

fun join_parts :: "path \<Rightarrow> string" where
  "join_parts [] = []"
| "join_parts [x] = x"
| "join_parts (x # y # ys) = x @ ''/'' @ join_parts (y # ys)"

definition str_path :: "ppath \<Rightarrow> string" where
  "str_path p =
     (if absolute p then ''/'' @ join_parts (parts p)
      else if parts p = [] then ''.'' else join_parts (parts p))"

definition joinpath :: "ppath \<Rightarrow> path \<Rightarrow> ppath" where
  "joinpath p rel = p\<lparr>parts := parts p @ rel\<rparr>"

definition parse_path :: "string \<Rightarrow> ppath" where
  "parse_path s =
     \<lparr>absolute = startswith s ''/'',
      parts = filter (\<lambda>x. x \<noteq> [] \<and> x \<noteq> ''.'') (segments s)\<rparr>"

definition parent :: "ppath \<Rightarrow> ppath" where
  "parent p = p\<lparr>parts := butlast (parts p)\<rparr>"

text \<open>\<open>os.path.join\<close> on two strings, as \<open>shutil.copytree\<close> uses it on the way down.\<close>

definition os_path_join :: "string \<Rightarrow> string \<Rightarrow> string" where
  "os_path_join a b =
     (if startswith b ''/'' then b
      else if a = [] \<or> last a = CHR ''/'' then a @ b
      else a @ ''/'' @ b)"

section \<open>File systems\<close>

text \<open>
  A regular file holds bytes or is a zip archive, whose members are a map from member
  paths to entries. The staging directory (\<open>self.tmp_folder\<close>) is such a map from the
  paths below it to entries, the empty path being the directory itself. The file system
  that holds the project is a tree, rooted where the project directory's path starts
  (the working directory, or \<open>/\<close> for an absolute path). The staging directory lies
  outside that tree: \<open>tempfile.mkdtemp\<close> makes it fresh in the system's temporary
  directory.
\<close>

datatype 'c entry = F 'c | D

datatype content = Bytes string | Zip "string list \<Rightarrow> content entry option"

type_synonym staging = "path \<Rightarrow> content entry option"

datatype node = File content | Dir "(string \<times> node) list"

datatype error =
    ValueError
  | FileNotFoundError
  | FileExistsError
  | NotADirectoryError
  | IsADirectoryError
  | ShutilError
  | CalledProcessError
  | ExportError

definition fresh_tmp :: staging where
  "fresh_tmp = [[] \<mapsto> D]"

fun lookup :: "node \<Rightarrow> path \<Rightarrow> node option" where
  "lookup n [] = Some n"
| "lookup (Dir es) (x # xs) =
     (case map_of es x of None \<Rightarrow> None | Some c \<Rightarrow> lookup c xs)"
| "lookup (File c) (x # xs) = None"

definition is_file :: "node \<Rightarrow> path \<Rightarrow> bool" where
  "is_file t p = (case lookup t p of Some (File c) \<Rightarrow> True | _ \<Rightarrow> False)"

definition is_dir :: "node \<Rightarrow> path \<Rightarrow> bool" where
  "is_dir t p = (case lookup t p of Some (Dir es) \<Rightarrow> True | _ \<Rightarrow> False)"

text \<open>
  \<open>tree_put t p v\<close> places \<open>v\<close> at \<open>p\<close> when the parent of \<open>p\<close> is a directory of
  \<open>t\<close>; it replaces what is there, and leaves \<open>t\<close> alone when the parent is missing.
\<close>

fun tree_put :: "node \<Rightarrow> path \<Rightarrow> node \<Rightarrow> node" where
  "tree_put n [] v = v"
| "tree_put (Dir es) [x] v = Dir (AList.update x v es)"
| "tree_put (Dir es) (x # y # ys) v =
     (case map_of es x of
        None \<Rightarrow> Dir es
      | Some c \<Rightarrow> Dir (AList.update x (tree_put c (y # ys) v) es))"
| "tree_put (File c) (x # xs) v = File c"

text \<open>\<open>Path.mkdir(exist_ok=True)\<close>, which makes one level only, in the tree.\<close>

definition tree_mkdir :: "node \<Rightarrow> path \<Rightarrow> error + node" where
  "tree_mkdir t p =
     (case lookup t p of
        Some (Dir es) \<Rightarrow> Inr t
      | Some (File c) \<Rightarrow> Inl FileExistsError
      | None \<Rightarrow>
          (case lookup t (butlast p) of
             Some (Dir es) \<Rightarrow> Inr (tree_put t p (Dir []))
           | Some (File c) \<Rightarrow> Inl NotADirectoryError
           | None \<Rightarrow> Inl FileNotFoundError))"

text \<open>Opening a file for writing in the tree and writing \<open>c\<close> to it.\<close>

definition tree_write :: "node \<Rightarrow> path \<Rightarrow> content \<Rightarrow> error + node" where
  "tree_write t p c =
     (case lookup t p of
        Some (Dir es) \<Rightarrow> Inl IsADirectoryError
      | _ \<Rightarrow>
          (case lookup t (butlast p) of
             Some (Dir es) \<Rightarrow> Inr (tree_put t p (File c))
           | Some (File b) \<Rightarrow> Inl NotADirectoryError
           | None \<Rightarrow> Inl FileNotFoundError))"

subsection \<open>Writing into the staging directory\<close>

text \<open>\<open>Path.mkdir(exist_ok=True)\<close> below the staging directory: one level only.\<close>

definition st_mkdir :: "staging \<Rightarrow> path \<Rightarrow> error + staging" where
  "st_mkdir st p =
     (case st p of
        Some D \<Rightarrow> Inr st
      | Some (F c) \<Rightarrow> Inl FileExistsError
      | None \<Rightarrow>
          (case st (butlast p) of
             Some D \<Rightarrow> Inr (st(p \<mapsto> D))
           | Some (F c) \<Rightarrow> Inl NotADirectoryError
           | None \<Rightarrow> Inl FileNotFoundError))"

text \<open>
  \<open>os.makedirs(dst, exist_ok=True)\<close>: every missing directory from the staging root down
  to \<open>dst\<close> is made. \<open>makedirs_from pre rest\<close> has reached the directory \<open>pre\<close>.
\<close>

fun makedirs_from :: "path \<Rightarrow> path \<Rightarrow> staging \<Rightarrow> error + staging" where
  "makedirs_from pre [] st = Inr st"
| "makedirs_from pre (x # xs) st =
     (case st (pre @ [x]) of
        Some D \<Rightarrow> makedirs_from (pre @ [x]) xs st
      | Some (F c) \<Rightarrow> Inl (if xs = [] then FileExistsError else NotADirectoryError)
      | None \<Rightarrow> makedirs_from (pre @ [x]) xs (st(pre @ [x] \<mapsto> D)))"

definition makedirs :: "staging \<Rightarrow> path \<Rightarrow> error + staging" where
  "makedirs st p = makedirs_from [] p st"

text \<open>\<open>shutil.copyfile\<close> of a file with content \<open>c\<close> to \<open>dst\<close>.\<close>

definition copyfile :: "content \<Rightarrow> path \<Rightarrow> staging \<Rightarrow> error + staging" where
  "copyfile c dst st =
     (case st dst of
        Some D \<Rightarrow> Inl IsADirectoryError
      | _ \<Rightarrow>
          (case st (butlast dst) of
             Some D \<Rightarrow> Inr (st(dst \<mapsto> F c))
           | Some (F b) \<Rightarrow> Inl NotADirectoryError
           | None \<Rightarrow> Inl FileNotFoundError))"

text \<open>
  \<open>shutil.copy2\<close>, the copy function of \<open>copytree\<close>: when the destination is a
  directory, the file goes into it under its own name.
\<close>

definition copy2 :: "content \<Rightarrow> string \<Rightarrow> path \<Rightarrow> staging \<Rightarrow> error + staging" where
  "copy2 c n dst st =
     (case st dst of
        Some D \<Rightarrow> copyfile c (dst @ [n]) st
      | _ \<Rightarrow> copyfile c dst st)"

text \<open>
  \<open>shutil.copytree(src, dst, dirs_exist_ok=True, ignore=callback)\<close>. The callback gets
  the source directory's path string and the names in it, and names the entries to leave
  out; then \<open>dst\<close> is made with \<open>os.makedirs\<close>, and each remaining entry is copied,
  directories by the recursive call on \<open>os.path.join(src, name)\<close>. An error at an entry
  is collected by \<open>copytree\<close> and raised as \<open>shutil.Error\<close> when the directory is done;
  the model returns it at once, the staging directory of a failed run being of no use.
\<close>

function copytree ::
    "(string \<Rightarrow> string list \<Rightarrow> string list) option \<Rightarrow> string \<Rightarrow> node \<Rightarrow> path \<Rightarrow> staging
      \<Rightarrow> error + staging"
  and copy_entries ::
    "(string \<Rightarrow> string list \<Rightarrow> string list) option \<Rightarrow> string list \<Rightarrow> string
      \<Rightarrow> (string \<times> node) list \<Rightarrow> path \<Rightarrow> staging \<Rightarrow> error + staging"
where
  "copytree ign src (File c) dst st = Inl NotADirectoryError"
| "copytree ign src (Dir es) dst st =
     (let ignored_names =
            (case ign of None \<Rightarrow> [] | Some f \<Rightarrow> f src (map fst es))
      in case makedirs st dst of
           Inl e \<Rightarrow> Inl e
         | Inr st1 \<Rightarrow> copy_entries ign ignored_names src es dst st1)"
| "copy_entries ign ignored_names src [] dst st = Inr st"
| "copy_entries ign ignored_names src (e # es) dst st =
     (if fst e \<in> set ignored_names then copy_entries ign ignored_names src es dst st
      else
        (case (case snd e of
                 Dir cs \<Rightarrow> copytree ign (os_path_join src (fst e)) (snd e) (dst @ [fst e]) st
               | File c \<Rightarrow> copy2 c (fst e) (dst @ [fst e]) st) of
           Inl err \<Rightarrow> Inl ShutilError
         | Inr st1 \<Rightarrow> copy_entries ign ignored_names src es dst st1))"
  by pat_completeness auto
termination
  by (relation "measure (\<lambda>x. case x of
        Inl (ign, src, n, dst, st) \<Rightarrow> 2 * size n
      | Inr (ign, ignored, src, es, dst, st) \<Rightarrow> 2 * size_list (size_prod (\<lambda>x. 0) size) es + 1)")
    auto

section \<open>The packaging pipeline\<close>

text \<open>
  \<open>Config\<close> is the class of \<open>lambda_packager.config\<close>; the pipeline reads its two
  fields.
\<close>

record config =
  src_patterns :: "string list"
  ignore_hidden_files :: bool

text \<open>
  What the pipeline gets from outside: \<open>poetry_is_used\<close> and \<open>export_poetry\<close> of
  \<open>lambda_packager.poetry\<close> (the export yields the text it writes to its target, or
  nothing when it writes no file, or raises), the \<open>pip install\<close> subprocess (given the
  requirements text, the \<open>--no-deps\<close> switch and the target directory; \<open>None\<close> is a
  non-zero exit status), and \<open>Path.rglob\<close>, taken with the \<open>relative_to(source_dir)\<close> of the
  copy loop applied: it yields the matched paths relative to the directory it searches.
\<close>

record env =
  poetry_is_used :: "node option \<Rightarrow> bool"
  export_poetry :: "node option \<Rightarrow> error + content option"
  pip_install :: "content \<Rightarrow> bool \<Rightarrow> staging \<Rightarrow> staging option"
  rglob :: "node \<Rightarrow> string \<Rightarrow> path list"

datatype location = InProject path | InTmp path

datatype call = PipInstall location bool | PoetryExport

datatype warning = NoDependency | SkippingFile path | NeitherFileNorDir path

text \<open>
  The state the pipeline works on: the file system holding the project, the staging
  directory, the calls made to the outside so far and the warnings logged.
\<close>

record world =
  fs :: node
  tmp :: staging
  calls :: "call list"
  warnings :: "warning list"

definition read_file :: "world \<Rightarrow> location \<Rightarrow> content option" where
  "read_file w loc =
     (case loc of
        InProject p \<Rightarrow> (case lookup (fs w) p of Some (File c) \<Rightarrow> Some c | _ \<Rightarrow> None)
      | InTmp p \<Rightarrow> (case tmp w p of Some (F c) \<Rightarrow> Some c | _ \<Rightarrow> None))"

text \<open>
  \<^verbatim>\<open>
  def _install_requirements_txt(target, requirements_file_path: Path, no_deps=False):
      if not requirements_file_path.is_file():
          raise ValueError(...)
      cmd = [sys.executable, "-m", "pip", "install", "-r", requirements_file_path,
             "--target", target]
      if no_deps:
          cmd.append("--no-deps")
      return subprocess.check_output(cmd)
  \<close>
  The target is the staging directory at both call sites.
\<close>

definition install_requirements_txt ::
    "env \<Rightarrow> location \<Rightarrow> bool \<Rightarrow> world \<Rightarrow> error \<times> world + world" where
  "install_requirements_txt ev requirements_file_path no_deps w =
     (case read_file w requirements_file_path of
        None \<Rightarrow> Inl (ValueError, w)
      | Some c \<Rightarrow>
          (let w1 = w\<lparr>calls := calls w @ [PipInstall requirements_file_path no_deps]\<rparr>
           in case pip_install ev c no_deps (tmp w1) of
                None \<Rightarrow> Inl (CalledProcessError, w1)
              | Some st \<Rightarrow> Inr (w1\<lparr>tmp := st\<rparr>)))"

text \<open>
  \<^verbatim>\<open>
  def _get_matching_files_and_folders(pattern_list, source_dir):
      matching_objects = set()
      for pattern in pattern_list:
          matching_objects.update(source_dir.rglob(pattern))
      return matching_objects
  \<close>
  The set is a duplicate-free list; the order in which Python iterates over it is one of
  the orders that \<open>rglob\<close>, a parameter, can give.
\<close>

definition get_matching_files_and_folders ::
    "(node \<Rightarrow> string \<Rightarrow> path list) \<Rightarrow> string list \<Rightarrow> node option \<Rightarrow> path list" where
  "get_matching_files_and_folders glob pattern_list source_dir =
     (case source_dir of
        None \<Rightarrow> []
      | Some root \<Rightarrow> remdups (concat (map (glob root) pattern_list)))"

text \<open>
  The body of the loop of \<open>_copy_source_files\<close> for one matched object, given by its path
  relative to the project directory \<open>pd\<close>.
\<close>

definition copy_object ::
    "config \<Rightarrow> ppath \<Rightarrow> path \<Rightarrow> world \<Rightarrow> error \<times> world + world" where
  "copy_object cfg pd relative_path w =
     (case lookup (fs w) (parts pd @ relative_path) of
        Some (File c) \<Rightarrow>
          (case st_mkdir (tmp w) (butlast relative_path) of
             Inl e \<Rightarrow> Inl (e, w)
           | Inr st1 \<Rightarrow>
               if ignore_hidden_files cfg
                  \<and> is_hidden_file (str_path \<lparr>absolute = False, parts = relative_path\<rparr>)
               then Inr (w\<lparr>tmp := st1, warnings := warnings w @ [SkippingFile relative_path]\<rparr>)
               else (case copyfile c relative_path st1 of
                       Inl e \<Rightarrow> Inl (e, w\<lparr>tmp := st1\<rparr>)
                     | Inr st2 \<Rightarrow> Inr (w\<lparr>tmp := st2\<rparr>)))
      | Some (Dir es) \<Rightarrow>
          (let ignore_files_callback =
                 (if ignore_hidden_files cfg then Some is_hidden_file_list else None)
           in case copytree ignore_files_callback (str_path (joinpath pd relative_path))
                     (Dir es) relative_path (tmp w) of
                Inl e \<Rightarrow> Inl (e, w)
              | Inr st1 \<Rightarrow> Inr (w\<lparr>tmp := st1\<rparr>))
      | None \<Rightarrow> Inr (w\<lparr>warnings := warnings w @ [NeitherFileNorDir relative_path]\<rparr>))"

fun copy_objects ::
    "config \<Rightarrow> ppath \<Rightarrow> path list \<Rightarrow> world \<Rightarrow> error \<times> world + world" where
  "copy_objects cfg pd [] w = Inr w"
| "copy_objects cfg pd (obj # objs) w =
     (case copy_object cfg pd obj w of
        Inl e \<Rightarrow> Inl e
      | Inr w1 \<Rightarrow> copy_objects cfg pd objs w1)"

definition copy_source_files ::
    "env \<Rightarrow> config \<Rightarrow> ppath \<Rightarrow> world \<Rightarrow> error \<times> world + world" where
  "copy_source_files ev cfg pd w =
     copy_objects cfg pd
       (get_matching_files_and_folders (rglob ev) (src_patterns cfg)
          (lookup (fs w) (parts pd))) w"

text \<open>
  \<^verbatim>\<open>
  def _create_zip_file(source_dir, target):
      if target.endswith(".zip"):
          Path(target).parent.mkdir(exist_ok=True)
          name = target[: -len(".zip")]
          shutil.make_archive(base_name=name, format="zip", root_dir=source_dir)
      else:
          raise ValueError(...)
  \<close>
  \<open>make_archive\<close> writes the file \<open>base_name + ".zip"\<close>; its members are the entries
  below \<open>root_dir\<close>, directories included, under their paths relative to it. Both
  functions return the tree as it is when they fail, next to the error.
\<close>

definition endswith :: "string \<Rightarrow> string \<Rightarrow> bool" where
  "endswith s x = suffix x s"

definition archive_of :: "staging \<Rightarrow> staging" where
  "archive_of st = st([] := None)"

definition make_archive :: "string \<Rightarrow> staging \<Rightarrow> node \<Rightarrow> error + node" where
  "make_archive base_name root_dir t =
     tree_write t (parts (parse_path (base_name @ ''.zip''))) (Zip (archive_of root_dir))"

definition create_zip_file :: "staging \<Rightarrow> string \<Rightarrow> node \<Rightarrow> error \<times> node + node" where
  "create_zip_file source_dir target t =
     (if endswith target ''.zip'' then
        (case tree_mkdir t (parts (parent (parse_path target))) of
           Inl e \<Rightarrow> Inl (e, t)
         | Inr t1 \<Rightarrow>
             (let name = take (length target - length ''.zip'') target
              in case make_archive name source_dir t1 of
                   Inl e \<Rightarrow> Inl (e, t1)
                 | Inr t2 \<Rightarrow> Inr t2))
      else Inl (ValueError, t))"

text \<open>
  \<open>execute\<close>, on the instance whose project directory is \<open>pd\<close>: the choice of the
  dependency source, the copy of the sources, the archive.
\<close>

definition install_dependencies :: "env \<Rightarrow> ppath \<Rightarrow> world \<Rightarrow> error \<times> world + world" where
  "install_dependencies ev pd w =
     (if is_file (fs w) (parts (joinpath pd [''requirements.txt''])) then
        install_requirements_txt ev
          (InProject (parts (joinpath pd [''requirements.txt'']))) False w
      else if poetry_is_used ev (lookup (fs w) (parts pd)) then
        (let w1 = w\<lparr>calls := calls w @ [PoetryExport]\<rparr>
         in case export_poetry ev (lookup (fs w) (parts pd)) of
              Inl e \<Rightarrow> Inl (e, w1)
            | Inr written \<Rightarrow>
                install_requirements_txt ev (InTmp [''requirements.txt'']) True
                  (case written of
                     None \<Rightarrow> w1
                   | Some c \<Rightarrow> w1\<lparr>tmp := (tmp w1)([''requirements.txt''] \<mapsto> F c)\<rparr>))
      else Inr (w\<lparr>warnings := warnings w @ [NoDependency]\<rparr>))"

definition execute :: "env \<Rightarrow> config \<Rightarrow> ppath \<Rightarrow> world \<Rightarrow> error \<times> world + world" where
  "execute ev cfg pd w =
     (case install_dependencies ev pd w of
        Inl e \<Rightarrow> Inl e
      | Inr w1 \<Rightarrow>
          (case copy_source_files ev cfg pd w1 of
             Inl e \<Rightarrow> Inl e
           | Inr w2 \<Rightarrow>
               (case create_zip_file (tmp w2)
                       (str_path (joinpath pd [''dist'', ''lambda.zip''])) (fs w2) of
                  Inl (e, t) \<Rightarrow> Inl (e, w2\<lparr>fs := t\<rparr>)
                | Inr t \<Rightarrow> Inr (w2\<lparr>fs := t\<rparr>))))"

text \<open>
  The world in which \<open>execute\<close> starts: \<open>__init__\<close> has made the staging directory,
  nothing has been called or logged.
\<close>

definition initial_world :: "node \<Rightarrow> world" where
  "initial_world t = \<lparr>fs = t, tmp = fresh_tmp, calls = [], warnings = []\<rparr>"

text \<open>What a zip file at \<open>p\<close> in the tree holds at the member path \<open>m\<close>.\<close>

definition zip_member :: "node \<Rightarrow> path \<Rightarrow> path \<Rightarrow> content entry option" where
  "zip_member t p m =
     (case lookup t p of Some (File (Zip a)) \<Rightarrow> a m | _ \<Rightarrow> None)"

text \<open>
  \<open>Path.rglob\<close> for a pattern of one component built from literal characters, \<open>*\<close> and
  \<open>?\<close>: every path below the directory whose last name matches. Dotted names are matched
  like all others.
\<close>

fun glob_match :: "string \<Rightarrow> string \<Rightarrow> bool" where
  "glob_match [] [] = True"
| "glob_match [] (c # cs) = False"
| "glob_match (p # ps) [] = (p = CHR ''*'' \<and> glob_match ps [])"
| "glob_match (p # ps) (c # cs) =
     (if p = CHR ''*'' then glob_match ps (c # cs) \<or> glob_match (p # ps) cs
      else (p = CHR ''?'' \<or> p = c) \<and> glob_match ps cs)"

fun all_paths :: "node \<Rightarrow> path list"
  and all_paths_entries :: "(string \<times> node) list \<Rightarrow> path list" where
  "all_paths (File c) = []"
| "all_paths (Dir es) = all_paths_entries es"
| "all_paths_entries [] = []"
| "all_paths_entries (e # es) =
     [fst e] # map ((#) (fst e)) (all_paths (snd e)) @ all_paths_entries es"

definition rglob_one :: "node \<Rightarrow> string \<Rightarrow> path list" where
  "rglob_one root pattern = filter (\<lambda>p. glob_match pattern (last p)) (all_paths root)"

section \<open>Reading results\<close>

text \<open>
  The error a run ended with, the world it ended in, the path of the archive it writes
  and the archive's entry at a member path.
\<close>

definition outcome :: "error \<times> world + world \<Rightarrow> error option" where
  "outcome r = (case r of Inl (e, w) \<Rightarrow> Some e | Inr w \<Rightarrow> None)"

definition final_world :: "error \<times> world + world \<Rightarrow> world" where
  "final_world r = (case r of Inl (e, w) \<Rightarrow> w | Inr w \<Rightarrow> w)"

definition zip_error :: "error \<times> node + node \<Rightarrow> error option" where
  "zip_error r = (case r of Inl (e, t) \<Rightarrow> Some e | Inr t \<Rightarrow> None)"

definition zip_tree :: "error \<times> node + node \<Rightarrow> node" where
  "zip_tree r = (case r of Inl (e, t) \<Rightarrow> t | Inr t \<Rightarrow> t)"

definition archive_path :: "ppath \<Rightarrow> path" where
  "archive_path pd = parts (parse_path (str_path (joinpath pd [''dist'', ''lambda.zip''])))"

definition archived :: "ppath \<Rightarrow> error \<times> world + world \<Rightarrow> path \<Rightarrow> content entry option" where
  "archived pd r m =
     (case r of Inl x \<Rightarrow> None | Inr w \<Rightarrow> zip_member (fs w) (archive_path pd) m)"

definition is_D :: "content entry option \<Rightarrow> bool" where
  "is_D x = (case x of Some D \<Rightarrow> True | _ \<Rightarrow> False)"

definition is_F :: "content entry option \<Rightarrow> bool" where
  "is_F x = (case x of Some (F c) \<Rightarrow> True | _ \<Rightarrow> False)"

definition absent :: "content entry option \<Rightarrow> bool" where
  "absent x = (case x of None \<Rightarrow> True | _ \<Rightarrow> False)"

text \<open>The entry that the tree \<open>t\<close> has at \<open>p\<close>, in the form the staging directory holds.\<close>

definition entry_of :: "node \<Rightarrow> path \<Rightarrow> content entry option" where
  "entry_of t p =
     (case lookup t p of
        None \<Rightarrow> None
      | Some (File c) \<Rightarrow> Some (F c)
      | Some (Dir es) \<Rightarrow> Some D)"

section \<open>Well-formed trees and the growth of the staging directory\<close>

text \<open>The names in a directory of a file system are distinct.\<close>

fun wf_node :: "node \<Rightarrow> bool"
  and wf_entries :: "(string \<times> node) list \<Rightarrow> bool" where
  "wf_node (File c) = True"
| "wf_node (Dir es) = (distinct (map fst es) \<and> wf_entries es)"
| "wf_entries [] = True"
| "wf_entries (e # es) = (wf_node (snd e) \<and> wf_entries es)"

text \<open>Two paths are related when one lies on the way to the other.\<close>

definition related :: "path \<Rightarrow> path \<Rightarrow> bool" where
  "related a b = (prefix a b \<or> prefix b a)"

text \<open>
  \<open>grows proj S st st'\<close>: from \<open>st\<close> to \<open>st'\<close> no directory is lost, and every entry
  that differs lies on or below the way to a path of \<open>S\<close> and is the entry the tree
  \<open>proj\<close> has at the same path, or is a file that \<open>copy2\<close> put into a directory of the
  staging area standing where \<open>proj\<close> has a file.
\<close>

definition grows :: "node \<Rightarrow> path set \<Rightarrow> staging \<Rightarrow> staging \<Rightarrow> bool" where
  "grows proj S st st' =
     ((\<forall>m. st m = Some D \<longrightarrow> st' m = Some D)
      \<and> (\<forall>m. st' m = st m
            \<or> ((\<exists>obj\<in>S. related obj m)
                \<and> (st' m = entry_of proj m
                    \<or> (st' (butlast m) = Some D \<and> is_file proj (butlast m))))))"

section \<open>Example projects\<close>

text \<open>
  An environment without Poetry whose installer succeeds and installs nothing, and one
  in which Poetry is in use as well. \<open>Path()\<close> is the default project directory.
\<close>

definition plain_env :: env where
  "plain_env =
     \<lparr>poetry_is_used = (\<lambda>d. False), export_poetry = (\<lambda>d. Inr None),
      pip_install = (\<lambda>c n st. Some st), rglob = rglob_one\<rparr>"

definition poetry_env :: env where
  "poetry_env =
     \<lparr>poetry_is_used = (\<lambda>d. True), export_poetry = (\<lambda>d. Inr (Some (Bytes ''foo==1.0''))),
      pip_install = (\<lambda>c n st. Some (st([''foo.py''] \<mapsto> F (Bytes ''pkg'')))), rglob = rglob_one\<rparr>"

text \<open>An environment in which Poetry is in use and its export writes no file.\<close>

definition silent_poetry_env :: env where
  "silent_poetry_env =
     \<lparr>poetry_is_used = (\<lambda>d. True), export_poetry = (\<lambda>d. Inr None),
      pip_install = (\<lambda>c n st. Some st), rglob = rglob_one\<rparr>"

definition here :: ppath where
  "here = \<lparr>absolute = False, parts = []\<rparr>"

definition hide :: "string list \<Rightarrow> config" where
  "hide ps = \<lparr>src_patterns = ps, ignore_hidden_files = True\<rparr>"

definition keep :: "string list \<Rightarrow> config" where
  "keep ps = \<lparr>src_patterns = ps, ignore_hidden_files = False\<rparr>"

text \<open>A project whose only file is \<open>a/b/c.py\<close>.\<close>

definition nested_project :: node where
  "nested_project = Dir [(''a'', Dir [(''b'', Dir [(''c.py'', File (Bytes ''x''))])])]"

text \<open>A project with the hidden directory \<open>.cfg\<close> holding \<open>a.py\<close>.\<close>

definition dotdir_project :: node where
  "dotdir_project = Dir [(''.cfg'', Dir [(''a.py'', File (Bytes ''x''))])]"

text \<open>A project with \<open>.env\<close> and \<open>handler.py\<close> at its root and \<open>src/.env\<close>.\<close>

definition dotenv_project :: node where
  "dotenv_project =
     Dir [(''.env'', File (Bytes ''K=1'')), (''handler.py'', File (Bytes ''x'')),
          (''src'', Dir [(''.env'', File (Bytes ''K=2''))])]"

text \<open>
  The project \<open>pkg/a.py\<close> checked out at \<open>/srv/.ci/app\<close>, a directory below a hidden
  one.
\<close>

definition ci_dir :: ppath where
  "ci_dir = \<lparr>absolute = True, parts = [''srv'', ''.ci'', ''app'']\<rparr>"

definition ci_root :: node where
  "ci_root =
     Dir [(''srv'', Dir [(''.ci'', Dir [(''app'',
       Dir [(''pkg'', Dir [(''a.py'', File (Bytes ''x''))])])])])]"

text \<open>A file system in which an archive of an earlier run lies at \<open>dist/lambda.zip\<close>.\<close>

definition old_dist :: node where
  "old_dist = Dir [(''dist'', Dir [(''lambda.zip'', File (Bytes ''old''))])]"

text \<open>A project with both \<open>requirements.txt\<close> and a source file.\<close>

definition req_project :: node where
  "req_project =
     Dir [(''requirements.txt'', File (Bytes ''foo==1.0'')), (''handler.py'', File (Bytes ''x''))]"

section \<open>Properties of the hidden-file predicate\<close>

lemma segments_nonempty: "segments s \<noteq> []"
  by (induction s) (auto split: list.splits)

lemma startswith_dot_Cons: "startswith (c # cs) ''.'' = (c = CHR ''.'')"
  by (auto simp: startswith_def)

lemma hd_segments_Cons:
  "hd (segments (c # cs)) = (if c = CHR ''/'' then [] else c # hd (segments cs))"
  using segments_nonempty [of cs] by (cases "segments cs") auto

lemma tl_segments_Cons:
  "tl (segments (c # cs)) = (if c = CHR ''/'' then segments cs else tl (segments cs))"
  using segments_nonempty [of cs] by (cases "segments cs") auto

lemma startswith_hd_segments: "startswith (hd (segments s)) ''.'' = startswith s ''.''"
proof (cases s)
  case Nil
  then show ?thesis by simp
next
  case (Cons c cs)
  then show ?thesis
    by (simp only: hd_segments_Cons startswith_dot_Cons) (auto simp: startswith_def)
qed

lemma some_segment_dotted_segments:
  "some_segment_dotted (segments s) =
     (startswith s ''.'' \<or> some_segment_dotted (tl (segments s)))"
proof -
  obtain x xs where "segments s = x # xs"
    using segments_nonempty [of s] by (cases "segments s") auto
  then show ?thesis
    using startswith_hd_segments [of s] by simp
qed

lemma contains_slashdot_Cons:
  "contains (c # cs) ''/.'' =
     ((c = CHR ''/'' \<and> startswith cs ''.'') \<or> contains cs ''/.'')"
  by (cases cs) (auto simp: startswith_def)

lemma contains_slashdot_segments:
  "contains s ''/.'' = some_segment_dotted (tl (segments s))"
proof (induction s)
  case Nil
  show ?case by simp
next
  case (Cons c cs)
  show ?case
  proof (cases "c = CHR ''/''")
    case True
    then show ?thesis
      using Cons.IH some_segment_dotted_segments [of cs]
      by (simp only: contains_slashdot_Cons tl_segments_Cons) auto
  next
    case False
    then show ?thesis
      using Cons.IH
      by (simp only: contains_slashdot_Cons tl_segments_Cons) auto
  qed
qed

text \<open>
  C9. For every path string with \<open>/\<close> as the separator, \<open>_is_hidden_file\<close> answers true
  exactly when one of the segments of the string, the last one included, begins with a dot.
\<close>

theorem is_hidden_file_iff_dotted_segment:
  "is_hidden_file name = spec_hidden name"
  unfolding is_hidden_file_def spec_hidden_def
  using some_segment_dotted_segments [of name] contains_slashdot_segments [of name]
  by simp

section \<open>Where the pipeline departs from its specification\<close>

text \<open>
  C1. With \<open>ignore_hidden_files\<close> set, the archive is to hold no path with a segment
  that begins with a dot. In the project \<open>.cfg/a.py\<close> the pattern \<open>.cfg\<close> matches the
  hidden directory: the callback makes \<open>copytree\<close> leave out all of its entries, but
  \<open>copytree\<close> makes the destination directory all the same, the run completes, and the
  archive has the member \<open>.cfg\<close>. With the pattern \<open>*.py\<close> the hidden file
  \<open>.cfg/a.py\<close> is matched: its parent is made before the hidden check, so the archive
  has the member \<open>.cfg\<close> again.
\<close>

theorem hidden_directory_is_archived:
  "is_hidden_file ''.cfg''
   \<and> rglob_one dotdir_project ''.cfg'' = [[''.cfg'']]
   \<and> outcome (execute plain_env (hide [''.cfg'']) here (initial_world dotdir_project)) = None
   \<and> is_D (archived here (execute plain_env (hide [''.cfg'']) here (initial_world dotdir_project))
         [''.cfg''])
   \<and> rglob_one dotdir_project ''*.py'' = [[''.cfg'', ''a.py'']]
   \<and> is_D (archived here (execute plain_env (hide [''*.py'']) here (initial_world dotdir_project))
         [''.cfg''])"
  by code_simp

text \<open>
  C2. The single-file check and the filter of the directory copy are to decide alike on
  one entry. The project \<open>pkg/a.py\<close> lies at \<open>/srv/.ci/app\<close>. Matched by \<open>*.py\<close>,
  the file is tested on its relative path \<open>pkg/a.py\<close>, is not hidden and is archived.
  Reached through the matched directory \<open>pkg\<close>, it is tested by the callback, which
  gets the source path \<open>/srv/.ci/app/pkg\<close> with the project directory in it, finds
  \<open>/.\<close> there and leaves every entry out: \<open>pkg\<close> is archived empty.
\<close>

theorem hidden_checks_disagree_below_hidden_checkout:
  "\<not> is_hidden_file (str_path \<lparr>absolute = False, parts = [''pkg'', ''a.py'']\<rparr>)
   \<and> is_F (archived ci_dir (execute plain_env (hide [''*.py'']) ci_dir (initial_world ci_root))
         [''pkg'', ''a.py''])
   \<and> is_hidden_file_list (str_path (joinpath ci_dir [''pkg''])) [''a.py''] = [''a.py'']
   \<and> is_D (archived ci_dir (execute plain_env (hide [''pkg'']) ci_dir (initial_world ci_root))
         [''pkg''])
   \<and> absent (archived ci_dir (execute plain_env (hide [''pkg'']) ci_dir (initial_world ci_root))
         [''pkg'', ''a.py''])"
  by code_simp

text \<open>
  C3. A matched file is to be copied to its relative path, the missing directories on the
  way being made. \<open>Path.mkdir(exist_ok=True)\<close> makes the file's parent only: for the
  single matched file \<open>a/b/c.py\<close> and an empty staging directory the directory \<open>a\<close> is
  missing, \<open>mkdir\<close> raises \<open>FileNotFoundError\<close> and the run ends with it.
\<close>

theorem nested_file_copy_fails:
  "rglob_one nested_project ''*.py'' = [[''a'', ''b'', ''c.py'']]
   \<and> is_file nested_project [''a'', ''b'', ''c.py'']
   \<and> outcome (copy_object (hide [''*.py'']) here [''a'', ''b'', ''c.py'']
         (initial_world nested_project)) = Some FileNotFoundError
   \<and> outcome (execute plain_env (hide [''*.py'']) here (initial_world nested_project))
       = Some FileNotFoundError"
  by code_simp

text \<open>
  C8. With \<open>ignore_hidden_files\<close> unset, every matched file, at any depth, is to be in
  the archive. The matched file \<open>a/b/c.py\<close> is in no archive: the run ends with the
  \<open>FileNotFoundError\<close> of C3 before an archive is written.
\<close>

theorem nested_match_not_archived:
  "[''a'', ''b'', ''c.py'']
     \<in> set (get_matching_files_and_folders rglob_one (src_patterns (keep [''*.py'']))
             (lookup nested_project (parts here)))
   \<and> outcome (execute plain_env (keep [''*.py'']) here (initial_world nested_project))
       = Some FileNotFoundError
   \<and> absent (archived here (execute plain_env (keep [''*.py'']) here (initial_world nested_project))
         [''a'', ''b'', ''c.py''])"
  by code_simp

section \<open>The choice of the dependency source\<close>

text \<open>Copying and archiving call nothing outside: the calls are those of the first step.\<close>

lemma calls_copy_object: "calls (final_world (copy_object cfg pd obj w)) = calls w"
  by (simp add: copy_object_def final_world_def Let_def
      split: option.splits node.splits sum.splits)

lemma calls_copy_objects: "calls (final_world (copy_objects cfg pd objs w)) = calls w"
proof (induction objs arbitrary: w)
  case Nil
  show ?case by (simp add: final_world_def)
next
  case (Cons obj objs)
  show ?case
  proof (cases "copy_object cfg pd obj w")
    case (Inl x)
    then show ?thesis
      using calls_copy_object [of cfg pd obj w] by (simp add: final_world_def)
  next
    case (Inr w1)
    then show ?thesis
      using calls_copy_object [of cfg pd obj w] Cons.IH [of w1]
      by (simp add: final_world_def)
  qed
qed

lemma calls_after_dependencies:
  assumes "install_dependencies ev pd w = Inr w1"
  shows "calls (final_world (execute ev cfg pd w)) = calls w1"
proof -
  have pres: "calls (final_world (copy_source_files ev cfg pd w1)) = calls w1"
    unfolding copy_source_files_def by (rule calls_copy_objects)
  show ?thesis
  proof (cases "copy_source_files ev cfg pd w1")
    case (Inl x)
    then show ?thesis
      using assms pres by (simp add: execute_def final_world_def)
  next
    case (Inr w2)
    then have "calls w2 = calls w1"
      using pres by (simp add: final_world_def)
    then show ?thesis
      using assms Inr
      by (simp add: execute_def final_world_def split: sum.splits prod.splits)
  qed
qed

lemma execute_dependency_failure:
  "install_dependencies ev pd w = Inl x \<Longrightarrow> execute ev cfg pd w = Inl x"
  by (simp add: execute_def)

text \<open>
  C4. When \<open>requirements.txt\<close> is a file of the project directory, whether Poetry is in
  use or not, the dependency step is the installation of that file with \<open>no_deps\<close>
  unset, and in the whole run, however it ends, this is the one call made outside: the
  lock export is not invoked.
\<close>

theorem requirements_txt_takes_priority:
  assumes "is_file (fs w) (parts (joinpath pd [''requirements.txt'']))"
  shows "install_dependencies ev pd w =
           install_requirements_txt ev (InProject (parts (joinpath pd [''requirements.txt'']))) False w
         \<and> calls (final_world (execute ev cfg pd w)) =
             calls w @ [PipInstall (InProject (parts (joinpath pd [''requirements.txt'']))) False]"
proof -
  let ?req = "InProject (parts (joinpath pd [''requirements.txt'']))"
  have dep: "install_dependencies ev pd w = install_requirements_txt ev ?req False w"
    using assms by (simp add: install_dependencies_def)
  obtain c where c: "read_file w ?req = Some c"
    using assms by (auto simp: is_file_def read_file_def split: option.splits node.splits)
  have "calls (final_world (execute ev cfg pd w)) = calls w @ [PipInstall ?req False]"
  proof (cases "install_dependencies ev pd w")
    case (Inl x)
    then show ?thesis
      using dep c execute_dependency_failure [OF Inl, of cfg]
      by (auto simp: install_requirements_txt_def final_world_def Let_def split: option.splits)
  next
    case (Inr w1)
    then show ?thesis
      using dep c calls_after_dependencies [OF Inr, of cfg]
      by (auto simp: install_requirements_txt_def Let_def split: option.splits)
  qed
  with dep show ?thesis by simp
qed

theorem requirements_txt_takes_priority_witness:
  "is_file req_project (parts (joinpath here [''requirements.txt'']))
   \<and> poetry_is_used poetry_env (lookup req_project (parts here))
   \<and> calls (final_world (execute poetry_env (hide [''*.py'']) here (initial_world req_project)))
       = [PipInstall (InProject [''requirements.txt'']) False]"
proof -
  have f: "is_file (fs (initial_world req_project)) (parts (joinpath here [''requirements.txt'']))"
    by code_simp
  have g: "is_file req_project (parts (joinpath here [''requirements.txt'']))
    \<and> poetry_is_used poetry_env (lookup req_project (parts here))"
    by code_simp
  show ?thesis
    using requirements_txt_takes_priority [OF f, of poetry_env "hide [''*.py'']"] g
    by (simp add: initial_world_def here_def joinpath_def)
qed

text \<open>
  C6. \<open>_install_requirements_txt\<close> raises \<open>ValueError\<close> exactly when the requirements file
  is not a regular file at the path it is given, and then the world is as before: the
  installer has not been called. An error of the dependency step ends \<open>execute\<close> with the
  world of that moment, so nothing is copied; where Poetry is in use and its export left no
  file, the run ends in \<open>ValueError\<close> with the export as the only call and the staging
  directory untouched.
\<close>

theorem missing_requirements_is_validation_error:
  "(\<exists>w'. install_requirements_txt ev loc no_deps w = Inl (ValueError, w'))
     = (read_file w loc = None)
   \<and> (read_file w loc = None \<longrightarrow>
        install_requirements_txt ev loc no_deps w = Inl (ValueError, w))
   \<and> (install_dependencies ev pd w = Inl (e, w') \<longrightarrow> execute ev cfg pd w = Inl (e, w'))
   \<and> (\<not> is_file (fs w) (parts (joinpath pd [''requirements.txt'']))
        \<and> poetry_is_used ev (lookup (fs w) (parts pd))
        \<and> export_poetry ev (lookup (fs w) (parts pd)) = Inr None
        \<and> read_file w (InTmp [''requirements.txt'']) = None \<longrightarrow>
        execute ev cfg pd w = Inl (ValueError, w\<lparr>calls := calls w @ [PoetryExport]\<rparr>))"
proof -
  have a: "(\<exists>w'. install_requirements_txt ev loc no_deps w = Inl (ValueError, w'))
     = (read_file w loc = None)"
    by (auto simp: install_requirements_txt_def Let_def split: option.splits)
  have b: "read_file w loc = None \<longrightarrow>
        install_requirements_txt ev loc no_deps w = Inl (ValueError, w)"
    by (simp add: install_requirements_txt_def)
  have c: "install_dependencies ev pd w = Inl (e, w') \<longrightarrow> execute ev cfg pd w = Inl (e, w')"
    by (simp add: execute_def)
  have d: "\<not> is_file (fs w) (parts (joinpath pd [''requirements.txt'']))
        \<and> poetry_is_used ev (lookup (fs w) (parts pd))
        \<and> export_poetry ev (lookup (fs w) (parts pd)) = Inr None
        \<and> read_file w (InTmp [''requirements.txt'']) = None \<longrightarrow>
        execute ev cfg pd w = Inl (ValueError, w\<lparr>calls := calls w @ [PoetryExport]\<rparr>)"
    by (auto simp: execute_def install_dependencies_def install_requirements_txt_def
        read_file_def Let_def split: option.splits)
  from a b c d show ?thesis by blast
qed

theorem missing_requirements_is_validation_error_witness:
  "read_file (initial_world nested_project) (InTmp [''requirements.txt'']) = None
   \<and> outcome (install_requirements_txt silent_poetry_env (InTmp [''requirements.txt'']) True
        (initial_world nested_project)) = Some ValueError
   \<and> \<not> is_file (fs (initial_world nested_project)) (parts (joinpath here [''requirements.txt'']))
   \<and> poetry_is_used silent_poetry_env (lookup (fs (initial_world nested_project)) (parts here))
   \<and> outcome (install_dependencies silent_poetry_env here (initial_world nested_project))
       = Some ValueError
   \<and> execute silent_poetry_env (hide [''*.py'']) here (initial_world nested_project)
       = install_dependencies silent_poetry_env here (initial_world nested_project)
   \<and> outcome (execute silent_poetry_env (hide [''*.py'']) here (initial_world nested_project))
       = Some ValueError
   \<and> calls (final_world
         (execute silent_poetry_env (hide [''*.py'']) here (initial_world nested_project)))
       = [PoetryExport]
   \<and> absent (tmp (final_world
         (execute silent_poetry_env (hide [''*.py'']) here (initial_world nested_project)))
         [''a''])"
proof -
  let ?w = "initial_world nested_project"
  let ?w1 = "?w\<lparr>calls := calls ?w @ [PoetryExport]\<rparr>"
  have h1: "read_file ?w (InTmp [''requirements.txt'']) = None"
    by (simp add: read_file_def initial_world_def fresh_tmp_def)
  have h2: "\<not> is_file (fs ?w) (parts (joinpath here [''requirements.txt'']))"
    by code_simp
  have h3: "poetry_is_used silent_poetry_env (lookup (fs ?w) (parts here))"
    by (simp add: silent_poetry_env_def)
  have h4: "export_poetry silent_poetry_env (lookup (fs ?w) (parts here)) = Inr None"
    by (simp add: silent_poetry_env_def)
  have h5: "absent (tmp ?w [''a''])"
    by (simp add: absent_def initial_world_def fresh_tmp_def)
  have h6: "read_file ?w1 (InTmp [''requirements.txt'']) = None"
    by (simp add: read_file_def initial_world_def fresh_tmp_def)
  have dep: "install_dependencies silent_poetry_env here ?w = Inl (ValueError, ?w1)"
    using h2 h3 h4 h6 by (simp add: install_dependencies_def install_requirements_txt_def)
  note t = missing_requirements_is_validation_error
      [of silent_poetry_env "InTmp [''requirements.txt'']" True ?w here ValueError ?w1
          "hide [''*.py'']"]
  from t h1 have a: "install_requirements_txt silent_poetry_env (InTmp [''requirements.txt''])
      True ?w = Inl (ValueError, ?w)"
    by blast
  from t dep have b: "execute silent_poetry_env (hide [''*.py'']) here ?w = Inl (ValueError, ?w1)"
    by blast
  from t h1 h2 h3 h4 have b': "execute silent_poetry_env (hide [''*.py'']) here ?w
      = Inl (ValueError, ?w1)"
    by blast
  have c: "calls ?w = []"
    by (simp add: initial_world_def)
  show ?thesis
    using h1 h2 h3 h5 c
    by (simp only: a b dep outcome_def final_world_def sum.case prod.case) simp
qed

section \<open>Looking up and writing in the tree\<close>

lemma lookup_append:
  "lookup t (p @ q) = (case lookup t p of None \<Rightarrow> None | Some n \<Rightarrow> lookup n q)"
proof (induction p arbitrary: t)
  case Nil
  show ?case by simp
next
  case (Cons x xs)
  show ?case
  proof (cases t)
    case (File c)
    then show ?thesis by simp
  next
    case (Dir es)
    then show ?thesis
      using Cons.IH by (simp split: option.splits)
  qed
qed

lemma lookup_prefix_is_dir:
  assumes "lookup t (p @ x # q) = Some n"
  shows "is_dir t p"
proof -
  obtain d where d: "lookup t p = Some d" and below: "lookup d (x # q) = Some n"
    using assms by (auto simp: lookup_append split: option.splits)
  from below obtain es where "d = Dir es"
    by (cases d) auto
  with d show ?thesis
    by (simp add: is_dir_def)
qed

lemma tree_put_Cons:
  "xs \<noteq> [] \<Longrightarrow>
   tree_put (Dir es) (x # xs) v =
     (case map_of es x of
        None \<Rightarrow> Dir es
      | Some c \<Rightarrow> Dir (AList.update x (tree_put c xs v) es))"
  by (cases xs) auto

lemma lookup_tree_put_parent:
  "lookup t q = Some (Dir es) \<Longrightarrow>
   lookup (tree_put t (q @ [x]) v) q = Some (Dir (AList.update x v es))"
proof (induction q arbitrary: t)
  case Nil
  then show ?case by simp
next
  case (Cons y ys)
  from Cons.prems obtain ds c where t: "t = Dir ds" and c: "map_of ds y = Some c"
    and below: "lookup c ys = Some (Dir es)"
    by (cases t) (auto split: option.splits)
  have "tree_put t ((y # ys) @ [x]) v = Dir (AList.update y (tree_put c (ys @ [x]) v) ds)"
    using t c by (simp add: tree_put_Cons)
  then show ?case
    using Cons.IH [OF below] by (simp add: update_conv')
qed

lemma lookup_tree_put_below:
  assumes "lookup t q = Some (Dir es)"
  shows "lookup (tree_put t (q @ [x]) v) (q @ x # r) = lookup v r"
  using lookup_tree_put_parent [OF assms, of x v]
  by (simp add: lookup_append update_conv')

lemma tree_mkdir_cases:
  assumes "tree_mkdir t p = Inr t1"
  shows "(is_dir t p \<and> t1 = t)
       \<or> (lookup t p = None \<and> is_dir t (butlast p) \<and> p \<noteq> [] \<and> t1 = tree_put t p (Dir []))"
  using assms
  by (auto simp: tree_mkdir_def is_dir_def split: option.splits node.splits)

lemma tree_mkdir_is_dir:
  assumes "tree_mkdir t p = Inr t1"
  shows "is_dir t1 p"
proof -
  from tree_mkdir_cases [OF assms] show ?thesis
  proof
    assume "is_dir t p \<and> t1 = t"
    then show ?thesis by simp
  next
    assume new: "lookup t p = None \<and> is_dir t (butlast p) \<and> p \<noteq> [] \<and> t1 = tree_put t p (Dir [])"
    then obtain es where es: "lookup t (butlast p) = Some (Dir es)"
      by (auto simp: is_dir_def split: option.splits node.splits)
    have p: "p = butlast p @ [last p]"
      using new by simp
    have "lookup (tree_put t (butlast p @ [last p]) (Dir [])) (butlast p @ last p # []) = lookup (Dir []) []"
      by (rule lookup_tree_put_below [OF es])
    then show ?thesis
      using new p by (simp add: is_dir_def)
  qed
qed

lemma tree_mkdir_succeeds:
  assumes "is_dir t (butlast p)" and "\<not> is_file t p"
  shows "\<exists>t1. tree_mkdir t p = Inr t1"
  using assms
  by (auto simp: tree_mkdir_def is_dir_def is_file_def split: option.splits node.splits)

lemma tree_mkdir_child:
  assumes "tree_mkdir t p = Inr t1" and "\<not> is_dir t (p @ [x])"
  shows "\<not> is_dir t1 (p @ [x])"
proof -
  from tree_mkdir_cases [OF assms(1)] show ?thesis
  proof
    assume "is_dir t p \<and> t1 = t"
    then show ?thesis using assms(2) by simp
  next
    assume new: "lookup t p = None \<and> is_dir t (butlast p) \<and> p \<noteq> [] \<and> t1 = tree_put t p (Dir [])"
    then obtain es where es: "lookup t (butlast p) = Some (Dir es)"
      by (auto simp: is_dir_def split: option.splits node.splits)
    have p: "p = butlast p @ [last p]"
      using new by simp
    have "lookup (tree_put t (butlast p @ [last p]) (Dir [])) (butlast p @ last p # [x])
        = lookup (Dir []) [x]"
      by (rule lookup_tree_put_below [OF es])
    then have "lookup t1 (p @ [x]) = None"
      using new p by (metis append.assoc append_Cons append_Nil lookup.simps(2) map_of.simps(1) option.simps(4))
    then show ?thesis
      by (simp add: is_dir_def)
  qed
qed

lemma tree_write_result:
  assumes "is_dir t (butlast p)" and "\<not> is_dir t p" and "p \<noteq> []"
  shows "\<exists>t'. tree_write t p c = Inr t' \<and> is_dir t' (butlast p) \<and> lookup t' p = Some (File c)"
proof -
  from assms(1) obtain es where es: "lookup t (butlast p) = Some (Dir es)"
    by (auto simp: is_dir_def split: option.splits node.splits)
  have p: "p = butlast p @ [last p]"
    using assms(3) by simp
  have w: "tree_write t p c = Inr (tree_put t p (File c))"
    using assms(2) es by (auto simp: tree_write_def is_dir_def split: option.splits node.splits)
  have a: "lookup (tree_put t (butlast p @ [last p]) (File c)) (butlast p)
      = Some (Dir (AList.update (last p) (File c) es))"
    by (rule lookup_tree_put_parent [OF es])
  have b: "lookup (tree_put t (butlast p @ [last p]) (File c)) (butlast p @ last p # [])
      = lookup (File c) []"
    by (rule lookup_tree_put_below [OF es])
  show ?thesis
    using w a b p by (simp add: is_dir_def)
qed

lemma tree_write_written:
  assumes "tree_write t p c = Inr t'"
  shows "lookup t' p = Some (File c)"
proof -
  have d: "is_dir t (butlast p)" and nd: "\<not> is_dir t p"
    using assms by (auto simp: tree_write_def is_dir_def split: option.splits node.splits)
  have "p \<noteq> []"
    using d nd by auto
  from tree_write_result [OF d nd this, of c] assms show ?thesis
    by simp
qed

section \<open>The archive builder\<close>

lemma base_name_zip:
  assumes "endswith target ''.zip''"
  shows "take (length target - length ''.zip'') target @ ''.zip'' = target"
proof -
  from assms obtain zs where "target = zs @ ''.zip''"
    by (auto simp: endswith_def suffix_def)
  then show ?thesis by simp
qed

lemma tree_errors_not_ValueError:
  "tree_mkdir t p \<noteq> Inl ValueError" "tree_write t p c \<noteq> Inl ValueError"
  by (auto simp: tree_mkdir_def tree_write_def split: option.splits node.splits)

lemma create_zip_file_ValueError:
  "(zip_error (create_zip_file st target t) = Some ValueError) = (\<not> endswith target ''.zip'')"
proof (cases "endswith target ''.zip''")
  case False
  then show ?thesis
    by (simp add: create_zip_file_def zip_error_def)
next
  case True
  show ?thesis
  proof (cases "tree_mkdir t (parts (parent (parse_path target)))")
    case (Inl e)
    then have "e \<noteq> ValueError"
      using tree_errors_not_ValueError(1) by metis
    then show ?thesis
      using True Inl by (simp add: create_zip_file_def zip_error_def)
  next
    case (Inr t1)
    show ?thesis
    proof (cases "make_archive (take (length target - length ''.zip'') target) st t1")
      case (Inl e)
      then have "e \<noteq> ValueError"
        using tree_errors_not_ValueError(2) unfolding make_archive_def by metis
      then show ?thesis
        using True Inr Inl by (simp add: create_zip_file_def zip_error_def Let_def)
    next
      case (Inr t2)
      then show ?thesis
        using True \<open>tree_mkdir t (parts (parent (parse_path target))) = Inr t1\<close>
        by (simp add: create_zip_file_def zip_error_def Let_def)
    qed
  qed
qed

lemma create_zip_file_writes:
  assumes ext: "endswith target ''.zip''"
    and gp: "is_dir t (butlast (butlast (parts (parse_path target))))"
    and par: "\<not> is_file t (butlast (parts (parse_path target)))"
    and tgt: "\<not> is_dir t (parts (parse_path target))"
  shows "\<exists>t'. create_zip_file st target t = Inr t'
           \<and> is_dir t' (butlast (parts (parse_path target)))
           \<and> zip_member t' (parts (parse_path target)) = archive_of st"
proof -
  let ?tp = "parts (parse_path target)"
  have ne: "?tp \<noteq> []"
    using gp tgt by auto
  then have tp: "?tp = butlast ?tp @ [last ?tp]"
    by simp
  from tree_mkdir_succeeds [OF gp par] obtain t1 where t1: "tree_mkdir t (butlast ?tp) = Inr t1"
    by blast
  have d1: "is_dir t1 (butlast ?tp)"
    by (rule tree_mkdir_is_dir [OF t1])
  have "\<not> is_dir t (butlast ?tp @ [last ?tp])"
    using tgt tp by simp
  from tree_mkdir_child [OF t1 this] have nd1: "\<not> is_dir t1 ?tp"
    using tp by simp
  from tree_write_result [OF d1 nd1 ne, of "Zip (archive_of st)"]
  obtain t' where w: "tree_write t1 ?tp (Zip (archive_of st)) = Inr t'"
    and d': "is_dir t' (butlast ?tp)" and f': "lookup t' ?tp = Some (File (Zip (archive_of st)))"
    by blast
  have "create_zip_file st target t = Inr t'"
    using ext t1 w base_name_zip [OF ext]
    by (simp add: create_zip_file_def make_archive_def parent_def Let_def)
  moreover have "zip_member t' ?tp = archive_of st"
    using f' by (simp add: zip_member_def fun_eq_iff)
  ultimately show ?thesis
    using d' by blast
qed

lemma create_zip_file_archive:
  assumes "create_zip_file st target t = Inr t'"
  shows "zip_member t' (parts (parse_path target)) = archive_of st"
proof -
  have ext: "endswith target ''.zip''"
    using assms by (auto simp: create_zip_file_def split: if_splits)
  from assms ext obtain t1 where
    w: "tree_write t1 (parts (parse_path target)) (Zip (archive_of st)) = Inr t'"
    using base_name_zip [OF ext]
    by (auto simp: create_zip_file_def make_archive_def Let_def split: sum.splits)
  from tree_write_written [OF w] show ?thesis
    by (simp add: zip_member_def fun_eq_iff)
qed

text \<open>
  C5, as the claim states it: for a target that ends in \<open>.zip\<close> the missing parent
  directory is made and the archive written. For the target \<open>out/sub/x.zip\<close> in an empty
  directory this fails: \<open>Path.mkdir\<close> makes one level, \<open>out\<close> is missing, the call ends
  in \<open>FileNotFoundError\<close> and no parent directory exists afterwards.
\<close>

theorem create_zip_file_deep_target_counterexample:
  "endswith ''out/sub/x.zip'' ''.zip''
   \<and> zip_error (create_zip_file fresh_tmp ''out/sub/x.zip'' (Dir [])) = Some FileNotFoundError
   \<and> \<not> is_dir (zip_tree (create_zip_file fresh_tmp ''out/sub/x.zip'' (Dir []))) [''out'', ''sub'']"
  by code_simp


text \<open>
  C5, amended. \<open>_create_zip_file\<close> raises \<open>ValueError\<close> exactly when the target does not
  end in \<open>.zip\<close>, and then the file system is as before. When the target ends in
  \<open>.zip\<close>, the directory above the target's parent exists, the parent is not a regular
  file and the target is not a directory, the call succeeds: afterwards the parent is a
  directory and the target is the archive of the staging directory, whatever was at the
  target before.
\<close>

theorem create_zip_file_contract:
  "(zip_error (create_zip_file st target t) = Some ValueError) = (\<not> endswith target ''.zip'')
   \<and> (\<not> endswith target ''.zip'' \<longrightarrow> create_zip_file st target t = Inl (ValueError, t))
   \<and> (endswith target ''.zip''
        \<and> is_dir t (butlast (butlast (parts (parse_path target))))
        \<and> \<not> is_file t (butlast (parts (parse_path target)))
        \<and> \<not> is_dir t (parts (parse_path target)) \<longrightarrow>
        (\<exists>t'. create_zip_file st target t = Inr t'
           \<and> is_dir t' (butlast (parts (parse_path target)))
           \<and> zip_member t' (parts (parse_path target)) = archive_of st))"
proof -
  have "\<not> endswith target ''.zip'' \<longrightarrow> create_zip_file st target t = Inl (ValueError, t)"
    by (simp add: create_zip_file_def)
  then show ?thesis
    using create_zip_file_ValueError [of st target t] create_zip_file_writes [of target t st]
    by blast
qed

theorem create_zip_file_contract_witness:
  "\<not> endswith ''dist/lambda.tar'' ''.zip''
   \<and> create_zip_file fresh_tmp ''dist/lambda.tar'' (Dir []) = Inl (ValueError, Dir [])
   \<and> endswith ''dist/lambda.zip'' ''.zip''
   \<and> is_file old_dist [''dist'', ''lambda.zip'']
   \<and> (\<exists>t'. create_zip_file fresh_tmp ''dist/lambda.zip'' old_dist = Inr t'
         \<and> is_dir t' [''dist'']
         \<and> zip_member t' [''dist'', ''lambda.zip''] = archive_of fresh_tmp)
   \<and> \<not> is_dir (Dir []) [''dist'']
   \<and> (\<exists>t'. create_zip_file fresh_tmp ''dist/lambda.zip'' (Dir []) = Inr t'
         \<and> is_dir t' [''dist'']
         \<and> zip_member t' [''dist'', ''lambda.zip''] = archive_of fresh_tmp)"
proof -
  have p: "parts (parse_path ''dist/lambda.zip'') = [''dist'', ''lambda.zip'']"
    by code_simp
  have e1: "\<not> endswith ''dist/lambda.tar'' ''.zip''" and e2: "endswith ''dist/lambda.zip'' ''.zip''"
    by code_simp+
  have h: "is_dir old_dist (butlast (butlast (parts (parse_path ''dist/lambda.zip''))))
      \<and> \<not> is_file old_dist (butlast (parts (parse_path ''dist/lambda.zip'')))
      \<and> \<not> is_dir old_dist (parts (parse_path ''dist/lambda.zip''))
      \<and> is_file old_dist [''dist'', ''lambda.zip'']"
    by code_simp
  have g: "is_dir (Dir []) (butlast (butlast (parts (parse_path ''dist/lambda.zip''))))
      \<and> \<not> is_file (Dir []) (butlast (parts (parse_path ''dist/lambda.zip'')))
      \<and> \<not> is_dir (Dir []) (parts (parse_path ''dist/lambda.zip''))
      \<and> \<not> is_dir (Dir []) [''dist'']"
    by code_simp
  show ?thesis
    using create_zip_file_contract [of fresh_tmp "''dist/lambda.tar''" "Dir []"]
      create_zip_file_contract [of fresh_tmp "''dist/lambda.zip''" old_dist]
      create_zip_file_contract [of fresh_tmp "''dist/lambda.zip''" "Dir []"]
      e1 e2 h g
    unfolding p by simp
qed


section \<open>What copying does to the staging directory\<close>

text \<open>
  Every write of the copy step puts into the staging directory the entry the project has
  at the same path: the relation \<open>grows\<close> holds across each library call, each matched
  object and the whole loop.
\<close>

lemma grows_refl: "grows proj S st st"
  by (simp add: grows_def)

lemma grows_trans:
  assumes "grows proj S st st1" and "grows proj T st1 st2"
  shows "grows proj (S \<union> T) st st2"
  unfolding grows_def
proof (intro conjI allI impI)
  fix m assume "st m = Some D"
  then show "st2 m = Some D"
    using assms by (simp add: grows_def)
next
  fix m
  have keep: "\<And>q. st1 q = Some D \<Longrightarrow> st2 q = Some D"
    using assms(2) by (simp add: grows_def)
  have one: "st1 m = st m
      \<or> ((\<exists>obj\<in>S. related obj m)
          \<and> (st1 m = entry_of proj m \<or> (st1 (butlast m) = Some D \<and> is_file proj (butlast m))))"
    using assms(1) by (simp add: grows_def)
  have two: "st2 m = st1 m
      \<or> ((\<exists>obj\<in>T. related obj m)
          \<and> (st2 m = entry_of proj m \<or> (st2 (butlast m) = Some D \<and> is_file proj (butlast m))))"
    using assms(2) by (simp add: grows_def)
  show "st2 m = st m
      \<or> ((\<exists>obj\<in>S \<union> T. related obj m)
          \<and> (st2 m = entry_of proj m \<or> (st2 (butlast m) = Some D \<and> is_file proj (butlast m))))"
    using one two keep [of "butlast m"] by auto
qed

lemma grows_weaken:
  assumes "grows proj S st st'"
    and "\<And>a m. a \<in> S \<Longrightarrow> related a m \<Longrightarrow> \<exists>b\<in>T. related b m"
  shows "grows proj T st st'"
  using assms unfolding grows_def by meson

lemma grows_same:
  assumes "grows proj S st st1" and "grows proj S st1 st2"
  shows "grows proj S st st2"
  using grows_trans [OF assms] by simp

lemma grows_write:
  assumes "st p \<noteq> Some D" and "\<exists>obj\<in>S. related obj p"
    and "Some e = entry_of proj p
         \<or> (p \<noteq> [] \<and> st (butlast p) = Some D \<and> is_file proj (butlast p))"
  shows "grows proj S st (st(p \<mapsto> e))"
proof -
  have "p \<noteq> [] \<Longrightarrow> butlast p \<noteq> p"
    by (metis append_butlast_last_id append_self_conv list.distinct(1))
  then show ?thesis
    using assms unfolding grows_def by auto
qed

lemma st_mkdir_grows:
  assumes "st_mkdir st p = Inr st'" and "p \<noteq> [] \<Longrightarrow> is_dir proj p"
    and "\<exists>obj\<in>S. related obj p"
  shows "grows proj S st st'"
proof (cases "st p")
  case None
  then have new: "st' = st(p \<mapsto> D)" and par: "st (butlast p) = Some D"
    using assms(1) by (auto simp: st_mkdir_def split: option.splits entry.splits)
  have "p \<noteq> []"
    using None par by auto
  then have e: "Some D = entry_of proj p"
    using assms(2) by (auto simp: is_dir_def entry_of_def split: option.splits node.splits)
  have "grows proj S st (st(p \<mapsto> D))"
  proof (rule grows_write)
    show "st p \<noteq> Some D" using None by simp
    show "\<exists>obj\<in>S. related obj p" by (rule assms(3))
    show "Some D = entry_of proj p
        \<or> (p \<noteq> [] \<and> st (butlast p) = Some D \<and> is_file proj (butlast p))"
      using e by blast
  qed
  then show ?thesis
    using new by simp
next
  case (Some e)
  then have "st' = st"
    using assms(1) by (auto simp: st_mkdir_def split: entry.splits)
  then show ?thesis
    by (simp add: grows_refl)
qed

lemma copyfile_grows:
  assumes "copyfile c dst st = Inr st'"
    and "lookup proj dst = Some (File c)
         \<or> (dst \<noteq> [] \<and> st (butlast dst) = Some D \<and> is_file proj (butlast dst))"
    and "\<exists>obj\<in>S. related obj dst"
  shows "grows proj S st st'"
proof -
  have new: "st' = st(dst \<mapsto> F c)" and nd: "st dst \<noteq> Some D"
    using assms(1) by (auto simp: copyfile_def split: option.splits entry.splits)
  have e: "Some (F c) = entry_of proj dst
      \<or> (dst \<noteq> [] \<and> st (butlast dst) = Some D \<and> is_file proj (butlast dst))"
    using assms(2) by (auto simp: entry_of_def)
  have "grows proj S st (st(dst \<mapsto> F c))"
    by (rule grows_write [OF nd assms(3) e])
  then show ?thesis
    using new by simp
qed

lemma copy2_grows:
  assumes "copy2 c n dst st = Inr st'" and "lookup proj dst = Some (File c)"
    and "\<exists>obj\<in>S. related obj dst \<and> prefix obj dst"
  shows "grows proj S st st'"
proof (cases "st dst = Some D")
  case True
  then have cf: "copyfile c (dst @ [n]) st = Inr st'"
    using assms(1) by (simp add: copy2_def)
  have q: "dst @ [n] \<noteq> [] \<and> st (butlast (dst @ [n])) = Some D
      \<and> is_file proj (butlast (dst @ [n]))"
    using True assms(2) by (simp add: is_file_def)
  have "\<exists>obj\<in>S. related obj (dst @ [n])"
    using assms(3) by (auto simp: related_def)
  from copyfile_grows [OF cf _ this] q show ?thesis
    by blast
next
  case False
  then have cf: "copyfile c dst st = Inr st'"
    using assms(1) by (auto simp: copy2_def split: option.splits entry.splits)
  have "\<exists>obj\<in>S. related obj dst"
    using assms(3) by blast
  from copyfile_grows [OF cf _ this] assms(2) show ?thesis
    by blast
qed

lemma is_dir_prefix:
  assumes "is_dir t (p @ q)"
  shows "is_dir t p"
proof (cases q)
  case Nil
  with assms show ?thesis by simp
next
  case (Cons x xs)
  from assms obtain n where "lookup t (p @ x # xs) = Some n"
    using Cons by (auto simp: is_dir_def split: option.splits)
  then show ?thesis
    by (rule lookup_prefix_is_dir)
qed

lemma entry_of_dir: "is_dir t p \<Longrightarrow> entry_of t p = Some D"
  by (auto simp: is_dir_def entry_of_def split: option.splits node.splits)

lemma related_child: "related (dst @ [n]) m \<Longrightarrow> related dst m"
  by (auto simp: related_def prefix_def append_eq_append_conv2 Cons_eq_append_conv)

lemma makedirs_from_grows:
  "makedirs_from pre rest st = Inr st' \<Longrightarrow> is_dir proj (pre @ rest) \<Longrightarrow> pre @ rest \<in> S
   \<Longrightarrow> grows proj S st st'"
proof (induction rest arbitrary: pre st)
  case Nil
  then show ?case by (simp add: grows_refl)
next
  case (Cons x xs)
  have full: "(pre @ [x]) @ xs = pre @ x # xs"
    by simp
  have d: "is_dir proj (pre @ [x])"
    using Cons.prems(2) is_dir_prefix [of proj "pre @ [x]" xs] by simp
  have rel: "\<exists>obj\<in>S. related obj (pre @ [x])"
    using Cons.prems(3) by (auto simp: related_def prefix_def)
  show ?case
  proof (cases "st (pre @ [x])")
    case None
    then have rec: "makedirs_from (pre @ [x]) xs (st(pre @ [x] \<mapsto> D)) = Inr st'"
      using Cons.prems(1) by simp
    have one: "grows proj S st (st(pre @ [x] \<mapsto> D))"
    proof (rule grows_write)
      show "st (pre @ [x]) \<noteq> Some D" using None by simp
      show "\<exists>obj\<in>S. related obj (pre @ [x])" by (rule rel)
      show "Some D = entry_of proj (pre @ [x])
          \<or> (pre @ [x] \<noteq> [] \<and> st (butlast (pre @ [x])) = Some D
              \<and> is_file proj (butlast (pre @ [x])))"
        using entry_of_dir [OF d] by simp
    qed
    have two: "grows proj S (st(pre @ [x] \<mapsto> D)) st'"
    proof (rule Cons.IH [OF rec])
      show "is_dir proj ((pre @ [x]) @ xs)" using Cons.prems(2) by simp
      show "(pre @ [x]) @ xs \<in> S" using Cons.prems(3) by simp
    qed
    from grows_same [OF one two] show ?thesis .
  next
    case (Some e)
    then have rec: "makedirs_from (pre @ [x]) xs st = Inr st'" and "e = D"
      using Cons.prems(1) by (auto split: entry.splits)
    show ?thesis
    proof (rule Cons.IH [OF rec])
      show "is_dir proj ((pre @ [x]) @ xs)" using Cons.prems(2) by simp
      show "(pre @ [x]) @ xs \<in> S" using Cons.prems(3) by simp
    qed
  qed
qed

lemma makedirs_grows:
  "makedirs st dst = Inr st' \<Longrightarrow> is_dir proj dst \<Longrightarrow> grows proj {dst} st st'"
  using makedirs_from_grows [of "[]" dst st st' proj "{dst}"] by (simp add: makedirs_def)

lemma wf_lookup_child:
  assumes "lookup proj dst = Some (Dir es)" and "distinct (map fst es)" and "e \<in> set es"
  shows "lookup proj (dst @ [fst e]) = Some (snd e)"
proof -
  have "map_of es (fst e) = Some (snd e)"
    using assms(2,3) by (simp add: map_of_is_SomeI [of es "fst e" "snd e"])
  then show ?thesis
    using assms(1) by (simp add: lookup_append)
qed

lemma copytree_grows_aux:
  "(\<forall>st'. copytree ign src n dst st = Inr st' \<longrightarrow> lookup proj dst = Some n \<longrightarrow> wf_node n
      \<longrightarrow> grows proj {dst} st st')"
  "(\<forall>st'. copy_entries ign ig src es dst st = Inr st'
      \<longrightarrow> (\<forall>e\<in>set es. lookup proj (dst @ [fst e]) = Some (snd e)) \<longrightarrow> wf_entries es
      \<longrightarrow> grows proj {dst} st st')"
proof (induction ign src n dst st and ign ig src es dst st rule: copytree_copy_entries.induct)
  case (1 ign src c dst st)
  show ?case by simp
next
  case (2 ign src es dst st)
  show ?case
  proof (intro allI impI)
    fix st'
    assume run: "copytree ign src (Dir es) dst st = Inr st'"
      and at: "lookup proj dst = Some (Dir es)" and wf: "wf_node (Dir es)"
    let ?ig = "case ign of None \<Rightarrow> [] | Some f \<Rightarrow> f src (map fst es)"
    from run obtain st1 where mk: "makedirs st dst = Inr st1"
      and rest: "copy_entries ign ?ig src es dst st1 = Inr st'"
      by (auto simp: Let_def split: sum.splits)
    have d: "is_dir proj dst"
      using at by (simp add: is_dir_def)
    have one: "grows proj {dst} st st1"
      by (rule makedirs_grows [OF mk d])
    have kids: "\<forall>e\<in>set es. lookup proj (dst @ [fst e]) = Some (snd e)"
      using wf wf_lookup_child [OF at] by simp
    have two: "grows proj {dst} st1 st'"
      using "2.IH" [OF refl mk] rest kids wf by simp
    from grows_same [OF one two] show "grows proj {dst} st st'" .
  qed
next
  case (3 ign ig src dst st)
  show ?case by (simp add: grows_refl)
next
  case (4 ign ig src e es dst st)
  show ?case
  proof (intro allI impI)
    fix st'
    assume run: "copy_entries ign ig src (e # es) dst st = Inr st'"
      and kids: "\<forall>a\<in>set (e # es). lookup proj (dst @ [fst a]) = Some (snd a)"
      and wf: "wf_entries (e # es)"
    show "grows proj {dst} st st'"
    proof (cases "fst e \<in> set ig")
      case True
      then show ?thesis
        using "4.IH"(1) run kids wf by simp
    next
      case False
      let ?one = "case snd e of
            Dir cs \<Rightarrow> copytree ign (os_path_join src (fst e)) (snd e) (dst @ [fst e]) st
          | File c \<Rightarrow> copy2 c (fst e) (dst @ [fst e]) st"
      from run False obtain st1 where first: "?one = Inr st1"
        and rest: "copy_entries ign ig src es dst st1 = Inr st'"
        by (auto split: sum.splits)
      have here: "lookup proj (dst @ [fst e]) = Some (snd e)"
        using kids by simp
      have one: "grows proj {dst} st st1"
      proof (cases "snd e")
        case (File c)
        then have c2: "copy2 c (fst e) (dst @ [fst e]) st = Inr st1"
          using first by simp
        have "lookup proj (dst @ [fst e]) = Some (File c)"
          using here File by simp
        moreover have "\<exists>obj\<in>{dst}. related obj (dst @ [fst e]) \<and> prefix obj (dst @ [fst e])"
          by (simp add: related_def)
        ultimately show ?thesis
          using copy2_grows [OF c2] by blast
      next
        case (Dir cs)
        then have ct: "copytree ign (os_path_join src (fst e)) (snd e) (dst @ [fst e]) st = Inr st1"
          using first by simp
        have "wf_node (snd e)"
          using wf by simp
        then have "grows proj {dst @ [fst e]} st st1"
          using "4.IH"(2) [OF False Dir] ct here by simp
        then show ?thesis
          by (rule grows_weaken) (auto dest: related_child)
      qed
      have two: "grows proj {dst} st1 st'"
        using "4.IH"(3) [OF False first] rest kids wf by simp
      from grows_same [OF one two] show ?thesis .
    qed
  qed
qed

lemma copytree_grows:
  "copytree ign src n dst st = Inr st' \<Longrightarrow> lookup proj dst = Some n \<Longrightarrow> wf_node n
   \<Longrightarrow> grows proj {dst} st st'"
  using copytree_grows_aux(1) by blast

lemma wf_entries_member: "wf_entries es \<Longrightarrow> e \<in> set es \<Longrightarrow> wf_node (snd e)"
  by (induction es) auto

lemma wf_lookup: "wf_node t \<Longrightarrow> lookup t p = Some n \<Longrightarrow> wf_node n"
proof (induction p arbitrary: t)
  case Nil
  then show ?case by simp
next
  case (Cons x xs)
  from Cons.prems(2) obtain es c where t: "t = Dir es" and c: "map_of es x = Some c"
    and below: "lookup c xs = Some n"
    by (cases t) (auto split: option.splits)
  have "(x, c) \<in> set es"
    using c by (rule map_of_SomeD)
  then have "wf_node c"
    using Cons.prems(1) t wf_entries_member [of es "(x, c)"] by simp
  then show ?case
    using Cons.IH below by blast
qed

lemma lookup_parent_is_dir:
  assumes "lookup t p = Some n" and "p \<noteq> []"
  shows "is_dir t (butlast p)"
proof -
  have "lookup t (butlast p @ last p # []) = Some n"
    using assms by simp
  then show ?thesis
    by (rule lookup_prefix_is_dir)
qed

lemma st_mkdir_made:
  assumes "st_mkdir st p = Inr st'"
  shows "st' p = Some D \<and> (\<forall>m. m \<noteq> p \<longrightarrow> st' m = st m)"
  using assms by (auto simp: st_mkdir_def split: option.splits entry.splits)

lemma makedirs_from_made:
  "makedirs_from pre rest st = Inr st' \<Longrightarrow> rest \<noteq> [] \<Longrightarrow> st' (pre @ rest) = Some D"
proof (induction rest arbitrary: pre st)
  case Nil
  then show ?case by simp
next
  case (Cons x xs)
  show ?case
  proof (cases "xs = []")
    case True
    then show ?thesis
      using Cons.prems(1) by (auto split: option.splits entry.splits if_splits)
  next
    case False
    obtain st1 where rec: "makedirs_from (pre @ [x]) xs st1 = Inr st'"
      using Cons.prems(1) by (auto split: option.splits entry.splits)
    from Cons.IH [OF rec False] show ?thesis by simp
  qed
qed

lemma grows_keeps_dir: "grows proj S st st' \<Longrightarrow> st m = Some D \<Longrightarrow> st' m = Some D"
  by (simp add: grows_def)

lemma grows_persist:
  assumes g: "grows proj S st st'" and eq: "st m = entry_of proj m"
    and ex: "entry_of proj m \<noteq> None" and ne: "m \<noteq> []"
  shows "st' m = entry_of proj m"
proof -
  obtain n where "lookup proj m = Some n"
    using ex by (auto simp: entry_of_def split: option.splits)
  from lookup_parent_is_dir [OF this ne] have "\<not> is_file proj (butlast m)"
    by (auto simp: is_dir_def is_file_def split: option.splits node.splits)
  then show ?thesis
    using g eq unfolding grows_def by metis
qed

lemma copy_object_fs: "copy_object cfg pd obj w = Inr w' \<Longrightarrow> fs w' = fs w"
  by (auto simp: copy_object_def Let_def split: option.splits node.splits sum.splits if_splits)

lemma copy_object_grows:
  assumes run: "copy_object cfg pd obj w = Inr w'"
    and proj: "lookup (fs w) (parts pd) = Some proj" and wf: "wf_node (fs w)"
  shows "grows proj {obj} (tmp w) (tmp w')"
proof -
  have at: "lookup (fs w) (parts pd @ obj) = lookup proj obj"
    using proj by (simp add: lookup_append)
  show ?thesis
  proof (cases "lookup proj obj")
    case None
    then show ?thesis
      using run at by (auto simp: copy_object_def grows_refl)
  next
    case (Some n)
    show ?thesis
    proof (cases n)
      case (File c)
      from run at Some File obtain st1 where mk: "st_mkdir (tmp w) (butlast obj) = Inr st1"
        by (auto simp: copy_object_def split: sum.splits)
      have pd: "butlast obj \<noteq> [] \<Longrightarrow> is_dir proj (butlast obj)"
      proof -
        assume "butlast obj \<noteq> []"
        then have "obj \<noteq> []" by auto
        then show "is_dir proj (butlast obj)" by (rule lookup_parent_is_dir [OF Some])
      qed
      have "\<exists>a\<in>{obj}. related a (butlast obj)"
        by (simp add: related_def prefixeq_butlast)
      from st_mkdir_grows [OF mk pd this] have one: "grows proj {obj} (tmp w) st1"
        by simp
      show ?thesis
      proof (cases "ignore_hidden_files cfg
          \<and> is_hidden_file (str_path \<lparr>absolute = False, parts = obj\<rparr>)")
        case True
        then have "tmp w' = st1"
          using run at Some File mk by (auto simp: copy_object_def)
        then show ?thesis using one by simp
      next
        case False
        then obtain st2 where cf: "copyfile c obj st1 = Inr st2" and t: "tmp w' = st2"
          using run at Some File mk by (auto simp: copy_object_def split: sum.splits)
        have "grows proj {obj} st1 st2"
        proof (rule copyfile_grows [OF cf])
          show "lookup proj obj = Some (File c)
              \<or> (obj \<noteq> [] \<and> st1 (butlast obj) = Some D \<and> is_file proj (butlast obj))"
            using Some File by simp
          show "\<exists>a\<in>{obj}. related a obj"
            by (simp add: related_def)
        qed
        from grows_same [OF one this] t show ?thesis by simp
      qed
    next
      case (Dir es)
      let ?cb = "if ignore_hidden_files cfg then Some is_hidden_file_list else None"
      from run at Some Dir obtain st1 where
        ct: "copytree ?cb (str_path (joinpath pd obj)) (Dir es) obj (tmp w) = Inr st1"
        and t: "tmp w' = st1"
        by (auto simp: copy_object_def Let_def split: sum.splits)
      have "wf_node proj"
        by (rule wf_lookup [OF wf proj])
      then have "wf_node (Dir es)"
        using wf_lookup [of proj obj "Dir es"] Some Dir by simp
      from copytree_grows [OF ct _ this, of proj] Some Dir t show ?thesis
        by simp
    qed
  qed
qed

lemma copy_objects_fs: "copy_objects cfg pd objs w = Inr w' \<Longrightarrow> fs w' = fs w"
proof (induction objs arbitrary: w)
  case Nil
  then show ?case by simp
next
  case (Cons obj objs)
  from Cons.prems obtain w1 where one: "copy_object cfg pd obj w = Inr w1"
    and rest: "copy_objects cfg pd objs w1 = Inr w'"
    by (auto split: sum.splits)
  show ?case
    using Cons.IH [OF rest] copy_object_fs [OF one] by simp
qed

lemma copy_objects_grows:
  "copy_objects cfg pd objs w = Inr w' \<Longrightarrow> lookup (fs w) (parts pd) = Some proj
   \<Longrightarrow> wf_node (fs w) \<Longrightarrow> grows proj (set objs) (tmp w) (tmp w')"
proof (induction objs arbitrary: w)
  case Nil
  then show ?case by (simp add: grows_refl)
next
  case (Cons obj objs)
  from Cons.prems(1) obtain w1 where one: "copy_object cfg pd obj w = Inr w1"
    and rest: "copy_objects cfg pd objs w1 = Inr w'"
    by (auto split: sum.splits)
  have same: "fs w1 = fs w"
    by (rule copy_object_fs [OF one])
  have a: "grows proj {obj} (tmp w) (tmp w1)"
    by (rule copy_object_grows [OF one Cons.prems(2,3)])
  have b: "grows proj (set objs) (tmp w1) (tmp w')"
    using Cons.IH [OF rest] Cons.prems(2,3) same by simp
  from grows_trans [OF a b] show ?case by simp
qed

section \<open>The archive of a completed run\<close>

lemma install_dependencies_fs: "install_dependencies ev pd w = Inr w1 \<Longrightarrow> fs w1 = fs w"
  by (auto simp: install_dependencies_def install_requirements_txt_def Let_def
      split: if_splits option.splits sum.splits)

lemma execute_success:
  assumes "execute ev cfg pd w = Inr w'"
  shows "\<exists>w1 w2. install_dependencies ev pd w = Inr w1
           \<and> copy_objects cfg pd
                (get_matching_files_and_folders (rglob ev) (src_patterns cfg)
                   (lookup (fs w) (parts pd))) w1 = Inr w2
           \<and> fs w1 = fs w \<and> tmp w' = tmp w2
           \<and> zip_member (fs w') (archive_path pd) = archive_of (tmp w2)"
proof -
  from assms obtain w1 where dep: "install_dependencies ev pd w = Inr w1"
    by (auto simp: execute_def split: sum.splits)
  from assms dep obtain w2 where cp: "copy_source_files ev cfg pd w1 = Inr w2"
    by (auto simp: execute_def split: sum.splits)
  from assms dep cp obtain t where
    z: "create_zip_file (tmp w2) (str_path (joinpath pd [''dist'', ''lambda.zip''])) (fs w2) = Inr t"
    and w': "w' = w2\<lparr>fs := t\<rparr>"
    by (auto simp: execute_def split: sum.splits prod.splits)
  have same: "fs w1 = fs w"
    by (rule install_dependencies_fs [OF dep])
  have "zip_member (fs w') (archive_path pd) = archive_of (tmp w2)"
    using create_zip_file_archive [OF z] w' by (simp add: archive_path_def)
  then show ?thesis
    using dep cp same w' by (auto simp: copy_source_files_def)
qed

lemma copytree_made:
  assumes run: "copytree ign src (Dir es) dst st = Inr st'"
    and at: "lookup proj dst = Some (Dir es)" and wf: "wf_node (Dir es)" and ne: "dst \<noteq> []"
  shows "st' dst = Some D"
proof -
  let ?ig = "case ign of None \<Rightarrow> [] | Some f \<Rightarrow> f src (map fst es)"
  from run obtain st1 where mk: "makedirs st dst = Inr st1"
    and rest: "copy_entries ign ?ig src es dst st1 = Inr st'"
    by (auto simp: Let_def split: sum.splits)
  have d: "st1 dst = Some D"
    using makedirs_from_made [of "[]" dst st st1] mk ne by (simp add: makedirs_def)
  have kids: "\<forall>e\<in>set es. lookup proj (dst @ [fst e]) = Some (snd e)"
    using wf wf_lookup_child [OF at] by simp
  have "grows proj {dst} st1 st'"
    using copytree_grows_aux(2) [of ign ?ig src es dst st1 proj] rest kids wf by simp
  from grows_keeps_dir [OF this d] show ?thesis .
qed

lemma copy_object_places:
  assumes run: "copy_object cfg pd obj w = Inr w'"
    and proj: "lookup (fs w) (parts pd) = Some proj" and wf: "wf_node (fs w)"
    and ex: "entry_of proj obj \<noteq> None" and ne: "obj \<noteq> []"
    and keep: "\<not> (ignore_hidden_files cfg
                 \<and> is_hidden_file (str_path \<lparr>absolute = False, parts = obj\<rparr>)
                 \<and> is_file proj obj)"
  shows "tmp w' obj = entry_of proj obj"
proof -
  have at: "lookup (fs w) (parts pd @ obj) = lookup proj obj"
    using proj by (simp add: lookup_append)
  from ex obtain n where n: "lookup proj obj = Some n"
    by (auto simp: entry_of_def split: option.splits)
  show ?thesis
  proof (cases n)
    case (File c)
    have "is_file proj obj"
      using n File by (simp add: is_file_def)
    with keep have nohide: "\<not> (ignore_hidden_files cfg
        \<and> is_hidden_file (str_path \<lparr>absolute = False, parts = obj\<rparr>))"
      by blast
    from run at n File nohide obtain st1 st2 where cf: "copyfile c obj st1 = Inr st2"
      and t: "tmp w' = st2"
      by (auto simp: copy_object_def split: sum.splits)
    have "st2 obj = Some (F c)"
      using cf by (auto simp: copyfile_def split: option.splits entry.splits)
    then show ?thesis
      using t n File by (simp add: entry_of_def)
  next
    case (Dir es)
    let ?cb = "if ignore_hidden_files cfg then Some is_hidden_file_list else None"
    from run at n Dir obtain st1 where
      ct: "copytree ?cb (str_path (joinpath pd obj)) (Dir es) obj (tmp w) = Inr st1"
      and t: "tmp w' = st1"
      by (auto simp: copy_object_def Let_def split: sum.splits)
    have "wf_node proj"
      by (rule wf_lookup [OF wf proj])
    then have w: "wf_node (Dir es)"
      using wf_lookup [of proj obj "Dir es"] n Dir by simp
    have at': "lookup proj obj = Some (Dir es)"
      using n Dir by simp
    from copytree_made [OF ct at' w ne] show ?thesis
      using t n Dir by (simp add: entry_of_def)
  qed
qed

lemma copy_objects_places:
  "copy_objects cfg pd objs w = Inr w' \<Longrightarrow> lookup (fs w) (parts pd) = Some proj
   \<Longrightarrow> wf_node (fs w) \<Longrightarrow> obj \<in> set objs \<Longrightarrow> entry_of proj obj \<noteq> None \<Longrightarrow> obj \<noteq> []
   \<Longrightarrow> \<not> (ignore_hidden_files cfg
           \<and> is_hidden_file (str_path \<lparr>absolute = False, parts = obj\<rparr>)
           \<and> is_file proj obj)
   \<Longrightarrow> tmp w' obj = entry_of proj obj"
proof (induction objs arbitrary: w)
  case Nil
  then show ?case by simp
next
  case (Cons a objs)
  from Cons.prems(1) obtain w1 where one: "copy_object cfg pd a w = Inr w1"
    and rest: "copy_objects cfg pd objs w1 = Inr w'"
    by (auto split: sum.splits)
  have same: "fs w1 = fs w"
    by (rule copy_object_fs [OF one])
  show ?case
  proof (cases "obj \<in> set objs")
    case True
    show ?thesis
      using Cons.IH [OF rest _ _ True Cons.prems(5,6,7)] Cons.prems(2,3) same by simp
  next
    case False
    then have "a = obj"
      using Cons.prems(4) by simp
    then have one': "copy_object cfg pd obj w = Inr w1"
      using one by simp
    have "tmp w1 obj = entry_of proj obj"
      by (rule copy_object_places [OF one' Cons.prems(2,3,5,6,7)])
    moreover have "grows proj (set objs) (tmp w1) (tmp w')"
      using copy_objects_grows [OF rest, of proj] Cons.prems(2,3) same by simp
    ultimately show ?thesis
      using grows_persist Cons.prems(5,6) by blast
  qed
qed

lemma copy_object_skips:
  assumes isf: "lookup (fs w) (parts pd @ obj) = Some (File c)"
    and ign: "ignore_hidden_files cfg"
    and hid: "is_hidden_file (str_path \<lparr>absolute = False, parts = obj\<rparr>)"
    and run: "copy_object cfg pd obj w = Inr w1"
  shows "tmp w1 (butlast obj) = Some D \<and> tmp w1 obj = tmp w obj
         \<and> warnings w1 = warnings w @ [SkippingFile obj]"
proof -
  from run isf ign hid obtain st1 where mk: "st_mkdir (tmp w) (butlast obj) = Inr st1"
    and w1: "w1 = w\<lparr>tmp := st1, warnings := warnings w @ [SkippingFile obj]\<rparr>"
    by (auto simp: copy_object_def split: sum.splits)
  have made: "st1 (butlast obj) = Some D" and other: "\<forall>m. m \<noteq> butlast obj \<longrightarrow> st1 m = tmp w m"
    using st_mkdir_made [OF mk] by auto
  have "st1 obj = tmp w obj"
  proof (cases "obj = []")
    case True
    then have "st_mkdir (tmp w) [] = Inr st1"
      using mk by simp
    then have "st1 = tmp w"
      by (auto simp: st_mkdir_def split: option.splits entry.splits)
    then show ?thesis by simp
  next
    case False
    then have "obj \<noteq> butlast obj"
      by (metis append_butlast_last_id append_self_conv list.distinct(1))
    then show ?thesis
      using other by simp
  qed
  then show ?thesis
    using made w1 by simp
qed

lemma copy_objects_parent_of_skipped:
  "copy_objects cfg pd objs w = Inr w' \<Longrightarrow> lookup (fs w) (parts pd) = Some proj
   \<Longrightarrow> wf_node (fs w) \<Longrightarrow> obj \<in> set objs \<Longrightarrow> lookup proj obj = Some (File c)
   \<Longrightarrow> ignore_hidden_files cfg
   \<Longrightarrow> is_hidden_file (str_path \<lparr>absolute = False, parts = obj\<rparr>)
   \<Longrightarrow> tmp w' (butlast obj) = Some D"
proof (induction objs arbitrary: w)
  case Nil
  then show ?case by simp
next
  case (Cons a objs)
  from Cons.prems(1) obtain w1 where one: "copy_object cfg pd a w = Inr w1"
    and rest: "copy_objects cfg pd objs w1 = Inr w'"
    by (auto split: sum.splits)
  have same: "fs w1 = fs w"
    by (rule copy_object_fs [OF one])
  show ?case
  proof (cases "obj \<in> set objs")
    case True
    show ?thesis
      using Cons.IH [OF rest _ _ True Cons.prems(5,6,7)] Cons.prems(2,3) same by simp
  next
    case False
    then have a: "a = obj"
      using Cons.prems(4) by simp
    have "lookup (fs w) (parts pd @ obj) = Some (File c)"
      using Cons.prems(2,5) by (simp add: lookup_append)
    moreover have "copy_object cfg pd obj w = Inr w1"
      using one a by simp
    ultimately have "tmp w1 (butlast obj) = Some D"
      using copy_object_skips [of w pd obj c cfg w1] Cons.prems(6,7) by blast
    moreover have "grows proj (set objs) (tmp w1) (tmp w')"
      using copy_objects_grows [OF rest, of proj] Cons.prems(2,3) same by simp
    ultimately show ?thesis
      using grows_keeps_dir by blast
  qed
qed

lemma fresh_grows_mirror:
  assumes g: "grows proj S fresh_tmp st" and root: "is_dir proj []"
  shows "m \<noteq> [] \<Longrightarrow> st m = None \<or> (st m = entry_of proj m \<and> (\<exists>obj\<in>S. related obj m))"
proof (induction m rule: rev_induct)
  case Nil
  then show ?case by simp
next
  case (snoc x xs)
  have start: "fresh_tmp (xs @ [x]) = None"
    by (simp add: fresh_tmp_def)
  have alt: "st (xs @ [x]) = fresh_tmp (xs @ [x])
      \<or> ((\<exists>obj\<in>S. related obj (xs @ [x]))
          \<and> (st (xs @ [x]) = entry_of proj (xs @ [x])
              \<or> (st (butlast (xs @ [x])) = Some D \<and> is_file proj (butlast (xs @ [x])))))"
    using g unfolding grows_def by blast
  have no: "\<not> (st xs = Some D \<and> is_file proj xs)"
  proof (cases "xs = []")
    case True
    then show ?thesis
      using root by (auto simp: is_dir_def is_file_def split: option.splits node.splits)
  next
    case False
    from snoc.IH [OF False] show ?thesis
      by (auto simp: entry_of_def is_file_def split: option.splits node.splits)
  qed
  show ?case
    using alt start no by auto
qed

lemma outcome_None: "outcome r = None \<Longrightarrow> r = Inr (final_world r)"
  by (cases r) (auto simp: outcome_def final_world_def)

lemma archive_of_member: "m \<noteq> [] \<Longrightarrow> archive_of st m = st m"
  by (simp add: archive_of_def)

lemma archive_of_root: "archive_of st [] = None"
  by (simp add: archive_of_def)

text \<open>
  With hidden files kept, a run that completes has archived every matched object that
  exists in the project, under its relative path and with the project's content, whatever
  the installer put into the staging directory before.
\<close>

lemma matched_objects_archived:
  assumes run: "execute ev cfg pd w = Inr w'"
    and proj: "lookup (fs w) (parts pd) = Some proj" and wf: "wf_node (fs w)"
    and mem: "obj \<in> set (get_matching_files_and_folders (rglob ev) (src_patterns cfg)
                        (lookup (fs w) (parts pd)))"
    and ex: "entry_of proj obj \<noteq> None" and ne: "obj \<noteq> []"
    and keep: "\<not> ignore_hidden_files cfg"
  shows "zip_member (fs w') (archive_path pd) obj = entry_of proj obj"
proof -
  from execute_success [OF run] obtain w1 w2 where
    cp: "copy_objects cfg pd
           (get_matching_files_and_folders (rglob ev) (src_patterns cfg)
              (lookup (fs w) (parts pd))) w1 = Inr w2"
    and same: "fs w1 = fs w"
    and zip: "zip_member (fs w') (archive_path pd) = archive_of (tmp w2)"
    by blast
  have "tmp w2 obj = entry_of proj obj"
    using copy_objects_places [OF cp _ _ mem ex ne] proj wf same keep by simp
  then show ?thesis
    using zip ne by (simp add: archive_of_member)
qed

text \<open>
  C10. When a matched regular file is skipped as hidden, \<open>mkdir\<close> has run on its
  destination parent before the check: after the step the parent is a directory of the
  staging area, the file itself is not copied and the skip is logged; and when the run
  completes, the parent (where it is not the staging root) is a directory member of the
  archive.
\<close>

theorem skipped_hidden_file_keeps_parent:
  assumes isf: "lookup (fs w) (parts pd @ obj) = Some (File c)"
    and ign: "ignore_hidden_files cfg"
    and hid: "is_hidden_file (str_path \<lparr>absolute = False, parts = obj\<rparr>)"
  shows "(copy_object cfg pd obj w = Inr w1 \<longrightarrow>
            tmp w1 (butlast obj) = Some D \<and> tmp w1 obj = tmp w obj
            \<and> warnings w1 = warnings w @ [SkippingFile obj])
       \<and> (wf_node (fs w)
            \<and> obj \<in> set (get_matching_files_and_folders (rglob ev) (src_patterns cfg)
                          (lookup (fs w) (parts pd)))
            \<and> butlast obj \<noteq> []
            \<and> execute ev cfg pd w = Inr w' \<longrightarrow>
            zip_member (fs w') (archive_path pd) (butlast obj) = Some D)"
proof (rule conjI; rule impI)
  assume "copy_object cfg pd obj w = Inr w1"
  from copy_object_skips [OF isf ign hid this]
  show "tmp w1 (butlast obj) = Some D \<and> tmp w1 obj = tmp w obj
      \<and> warnings w1 = warnings w @ [SkippingFile obj]" .
next
  assume a: "wf_node (fs w)
      \<and> obj \<in> set (get_matching_files_and_folders (rglob ev) (src_patterns cfg)
                    (lookup (fs w) (parts pd)))
      \<and> butlast obj \<noteq> []
      \<and> execute ev cfg pd w = Inr w'"
  from isf obtain proj where proj: "lookup (fs w) (parts pd) = Some proj"
    and at: "lookup proj obj = Some (File c)"
    by (auto simp: lookup_append split: option.splits)
  from a execute_success [of ev cfg pd w w'] obtain w1 w2 where
    cp: "copy_objects cfg pd
           (get_matching_files_and_folders (rglob ev) (src_patterns cfg)
              (lookup (fs w) (parts pd))) w1 = Inr w2"
    and same: "fs w1 = fs w"
    and zip: "zip_member (fs w') (archive_path pd) = archive_of (tmp w2)"
    by blast
  have "tmp w2 (butlast obj) = Some D"
    using copy_objects_parent_of_skipped [OF cp _ _ _ at ign hid] proj a same by simp
  then show "zip_member (fs w') (archive_path pd) (butlast obj) = Some D"
    using zip a by (simp add: archive_of_member)
qed

theorem skipped_hidden_file_keeps_parent_witness:
  "is_file dotenv_project [''src'', ''.env'']
   \<and> is_hidden_file (str_path \<lparr>absolute = False, parts = [''src'', ''.env'']\<rparr>)
   \<and> absent (tmp (initial_world dotenv_project) [''src''])
   \<and> tmp (final_world (copy_object (hide [''.env'', ''*.py'']) here [''src'', ''.env'']
          (initial_world dotenv_project))) [''src''] = Some D
   \<and> absent (tmp (final_world (copy_object (hide [''.env'', ''*.py'']) here [''src'', ''.env'']
          (initial_world dotenv_project))) [''src'', ''.env''])
   \<and> zip_member
         (fs (final_world (execute plain_env (hide [''.env'', ''*.py'']) here
            (initial_world dotenv_project))))
         (archive_path here) [''src''] = Some D"
proof -
  let ?w = "initial_world dotenv_project"
  let ?cfg = "hide [''.env'', ''*.py'']"
  let ?obj = "[''src'', ''.env'']"
  have h1: "lookup (fs ?w) (parts here @ ?obj) = Some (File (Bytes ''K=2''))"
    by (simp add: initial_world_def dotenv_project_def here_def)
  have h2: "ignore_hidden_files ?cfg"
    by (simp add: hide_def)
  have h3: "is_hidden_file (str_path \<lparr>absolute = False, parts = ?obj\<rparr>)"
    by code_simp
  have "outcome (copy_object ?cfg here ?obj ?w) = None"
    by code_simp
  then have h4: "copy_object ?cfg here ?obj ?w = Inr (final_world (copy_object ?cfg here ?obj ?w))"
    by (rule outcome_None)
  have h5: "wf_node (fs ?w)"
    by code_simp
  have h6: "?obj \<in> set (get_matching_files_and_folders (rglob plain_env) (src_patterns ?cfg)
      (lookup (fs ?w) (parts here)))"
    by code_simp
  have h7: "butlast ?obj \<noteq> []"
    by simp
  have "outcome (execute plain_env ?cfg here ?w) = None"
    by code_simp
  then have h8: "execute plain_env ?cfg here ?w = Inr (final_world (execute plain_env ?cfg here ?w))"
    by (rule outcome_None)
  have before: "absent (tmp ?w [''src'']) \<and> absent (tmp ?w ?obj)"
    by (simp add: absent_def initial_world_def fresh_tmp_def)
  have f: "is_file dotenv_project ?obj"
    by code_simp
  note t = skipped_hidden_file_keeps_parent [OF h1 h2 h3,
      of "final_world (copy_object ?cfg here ?obj ?w)" plain_env
         "final_world (execute plain_env ?cfg here ?w)"]
  from t h4 have step: "tmp (final_world (copy_object ?cfg here ?obj ?w)) (butlast ?obj) = Some D
      \<and> tmp (final_world (copy_object ?cfg here ?obj ?w)) ?obj = tmp ?w ?obj"
    by blast
  from t h5 h6 h7 h8 have arch: "zip_member (fs (final_world (execute plain_env ?cfg here ?w)))
      (archive_path here) (butlast ?obj) = Some D"
    by blast
  show ?thesis
    using f h3 before step arch by simp
qed

text \<open>
  C7, as the claim states it: without a dependency source the archive holds exactly the
  matched source files. In the project with \<open>.env\<close> and \<open>handler.py\<close>, no
  \<open>requirements.txt\<close> and no Poetry, the patterns \<open>.env\<close> and \<open>*.py\<close> match the file
  \<open>.env\<close>; with \<open>ignore_hidden_files\<close> set the run completes and \<open>.env\<close> is not in the
  archive.
\<close>

theorem no_dependency_archive_counterexample:
  "\<not> is_file dotenv_project (parts (joinpath here [''requirements.txt'']))
   \<and> \<not> poetry_is_used plain_env (lookup dotenv_project (parts here))
   \<and> [''.env'']
        \<in> set (get_matching_files_and_folders rglob_one (src_patterns (hide [''.env'', ''*.py'']))
                (lookup dotenv_project (parts here)))
   \<and> is_file dotenv_project [''.env'']
   \<and> outcome (execute plain_env (hide [''.env'', ''*.py'']) here (initial_world dotenv_project))
       = None
   \<and> absent (archived here
         (execute plain_env (hide [''.env'', ''*.py'']) here (initial_world dotenv_project))
         [''.env''])"
  by code_simp

text \<open>
  C7, amended. Without \<open>requirements.txt\<close> and without Poetry the dependency step calls
  nothing, logs the warning and does not fail. When the run, started with the fresh
  staging directory in a project directory that exists, then completes, it has called
  nothing outside; every member of the archive is the project's entry at the same
  relative path, file contents included, and lies on or below the way to a matched
  object; and every matched object of the project that the hidden-file filter does not
  concern is a member.
\<close>

theorem no_dependency_source_run:
  assumes nr: "\<not> is_file (fs w) (parts (joinpath pd [''requirements.txt'']))"
    and np: "\<not> poetry_is_used ev (lookup (fs w) (parts pd))"
    and fresh: "tmp w = fresh_tmp"
    and dir: "lookup (fs w) (parts pd) = Some (Dir es)"
    and wf: "wf_node (fs w)"
  shows "install_dependencies ev pd w = Inr (w\<lparr>warnings := warnings w @ [NoDependency]\<rparr>)
       \<and> (execute ev cfg pd w = Inr w' \<longrightarrow>
            calls w' = calls w
            \<and> (\<forall>m e. zip_member (fs w') (archive_path pd) m = Some e \<longrightarrow>
                  entry_of (Dir es) m = Some e
                  \<and> (\<exists>obj\<in>set (get_matching_files_and_folders (rglob ev) (src_patterns cfg)
                                  (Some (Dir es))). related obj m))
            \<and> (\<forall>obj\<in>set (get_matching_files_and_folders (rglob ev) (src_patterns cfg)
                            (Some (Dir es))).
                  obj \<noteq> [] \<and> entry_of (Dir es) obj \<noteq> None
                  \<and> \<not> (ignore_hidden_files cfg
                        \<and> is_hidden_file (str_path \<lparr>absolute = False, parts = obj\<rparr>)) \<longrightarrow>
                  zip_member (fs w') (archive_path pd) obj = entry_of (Dir es) obj))"
proof (intro conjI impI)
  show dep: "install_dependencies ev pd w = Inr (w\<lparr>warnings := warnings w @ [NoDependency]\<rparr>)"
    using nr np by (simp add: install_dependencies_def)
  assume run: "execute ev cfg pd w = Inr w'"
  let ?objs = "get_matching_files_and_folders (rglob ev) (src_patterns cfg) (Some (Dir es))"
  let ?w1 = "w\<lparr>warnings := warnings w @ [NoDependency]\<rparr>"
  from execute_success [OF run] dep dir obtain w2 where
    cp: "copy_objects cfg pd ?objs ?w1 = Inr w2"
    and zip: "zip_member (fs w') (archive_path pd) = archive_of (tmp w2)"
    by auto
  have proj1: "lookup (fs ?w1) (parts pd) = Some (Dir es)" and wf1: "wf_node (fs ?w1)"
    using dir wf by simp_all
  have g: "grows (Dir es) (set ?objs) fresh_tmp (tmp w2)"
    using copy_objects_grows [OF cp proj1 wf1] fresh by simp
  have root: "is_dir (Dir es) []"
    by (simp add: is_dir_def)
  show "calls w' = calls w"
    using calls_after_dependencies [OF dep, of cfg] run by (simp add: final_world_def)
  show "\<forall>m e. zip_member (fs w') (archive_path pd) m = Some e \<longrightarrow>
      entry_of (Dir es) m = Some e \<and> (\<exists>obj\<in>set ?objs. related obj m)"
  proof (intro allI impI)
    fix m e
    assume mem: "zip_member (fs w') (archive_path pd) m = Some e"
    then have ne: "m \<noteq> []" and st: "tmp w2 m = Some e"
      using zip by (auto simp: archive_of_def split: if_splits)
    from fresh_grows_mirror [OF g root ne] st
    show "entry_of (Dir es) m = Some e \<and> (\<exists>obj\<in>set ?objs. related obj m)"
      by auto
  qed
  show "\<forall>obj\<in>set ?objs.
      obj \<noteq> [] \<and> entry_of (Dir es) obj \<noteq> None
      \<and> \<not> (ignore_hidden_files cfg
            \<and> is_hidden_file (str_path \<lparr>absolute = False, parts = obj\<rparr>)) \<longrightarrow>
      zip_member (fs w') (archive_path pd) obj = entry_of (Dir es) obj"
  proof (intro ballI impI)
    fix obj
    assume mem: "obj \<in> set ?objs"
      and c: "obj \<noteq> [] \<and> entry_of (Dir es) obj \<noteq> None
        \<and> \<not> (ignore_hidden_files cfg
              \<and> is_hidden_file (str_path \<lparr>absolute = False, parts = obj\<rparr>))"
    have "tmp w2 obj = entry_of (Dir es) obj"
      using copy_objects_places [OF cp proj1 wf1 mem] c by blast
    then show "zip_member (fs w') (archive_path pd) obj = entry_of (Dir es) obj"
      using zip c by (simp add: archive_of_member)
  qed
qed

theorem no_dependency_source_run_witness:
  "\<not> is_file (fs (initial_world dotenv_project)) (parts (joinpath here [''requirements.txt'']))
   \<and> \<not> poetry_is_used plain_env (lookup (fs (initial_world dotenv_project)) (parts here))
   \<and> wf_node (fs (initial_world dotenv_project))
   \<and> install_dependencies plain_env here (initial_world dotenv_project)
       = Inr ((initial_world dotenv_project)
               \<lparr>warnings := warnings (initial_world dotenv_project) @ [NoDependency]\<rparr>)
   \<and> calls (final_world (execute plain_env (hide [''.env'', ''*.py'']) here
         (initial_world dotenv_project))) = calls (initial_world dotenv_project)
   \<and> zip_member
         (fs (final_world (execute plain_env (hide [''.env'', ''*.py'']) here
            (initial_world dotenv_project))))
         (archive_path here) [''handler.py''] = Some (F (Bytes ''x''))
   \<and> (\<exists>obj\<in>set (get_matching_files_and_folders (rglob plain_env)
                   (src_patterns (hide [''.env'', ''*.py'']))
                   (Some (Dir [(''.env'', File (Bytes ''K=1'')), (''handler.py'', File (Bytes ''x'')),
                               (''src'', Dir [(''.env'', File (Bytes ''K=2''))])]))).
          related obj [''handler.py''])"
proof -
  let ?w = "initial_world dotenv_project"
  let ?cfg = "hide [''.env'', ''*.py'']"
  let ?es = "[(''.env'', File (Bytes ''K=1'')), (''handler.py'', File (Bytes ''x'')),
          (''src'', Dir [(''.env'', File (Bytes ''K=2''))])]"
  let ?r = "execute plain_env ?cfg here ?w"
  have n1: "\<not> is_file (fs ?w) (parts (joinpath here [''requirements.txt'']))"
    by code_simp
  have n2: "\<not> poetry_is_used plain_env (lookup (fs ?w) (parts here))"
    by code_simp
  have n3: "wf_node (fs ?w)"
    by code_simp
  have h3: "tmp ?w = fresh_tmp"
    by (simp add: initial_world_def)
  have h4: "lookup (fs ?w) (parts here) = Some (Dir ?es)"
    by (simp add: initial_world_def dotenv_project_def here_def)
  have "outcome ?r = None"
    by code_simp
  then have run: "?r = Inr (final_world ?r)"
    by (rule outcome_None)
  have m: "[''handler.py''] \<in> set (get_matching_files_and_folders (rglob plain_env)
      (src_patterns ?cfg) (Some (Dir ?es)))"
    by code_simp
  have e: "entry_of (Dir ?es) [''handler.py''] = Some (F (Bytes ''x''))"
    by (simp add: entry_of_def)
  have nh: "\<not> is_hidden_file (str_path \<lparr>absolute = False, parts = [''handler.py'']\<rparr>)"
    by code_simp
  note t = no_dependency_source_run [OF n1 n2 h3 h4 n3, of ?cfg "final_world ?r"]
  have dep: "install_dependencies plain_env here ?w
      = Inr (?w\<lparr>warnings := warnings ?w @ [NoDependency]\<rparr>)"
    by (rule conjunct1 [OF t])
  note rest = mp [OF conjunct2 [OF t] run]
  have c: "calls (final_world ?r) = calls ?w"
    by (rule conjunct1 [OF rest])
  note pres = bspec [OF conjunct2 [OF conjunct2 [OF rest]] m]
  have pre: "[''handler.py''] \<noteq> [] \<and> entry_of (Dir ?es) [''handler.py''] \<noteq> None
      \<and> \<not> (ignore_hidden_files ?cfg
            \<and> is_hidden_file (str_path \<lparr>absolute = False, parts = [''handler.py'']\<rparr>))"
    using e nh by simp
  have a: "zip_member (fs (final_world ?r)) (archive_path here) [''handler.py'']
      = Some (F (Bytes ''x''))"
    using mp [OF pres pre] e by (simp only:)
  note only = mp [OF spec [OF spec [OF conjunct1 [OF conjunct2 [OF rest]]]] a]
  have b: "\<exists>obj\<in>set (get_matching_files_and_folders (rglob plain_env) (src_patterns ?cfg)
      (Some (Dir ?es))). related obj [''handler.py'']"
    by (rule conjunct2 [OF only])
  from n1 n2 n3 dep c a b show ?thesis
    by (intro conjI)
qed

end
